theory Spec2Isabelle
  imports Main
begin

section \<open>Python values: strings, lists, text files\<close>

text \<open>
  A Python \<open>str\<close> is modelled as a \<open>string\<close>; a \<open>char\<close> stands for the code point of the
  same number, so the model covers the strings over U+0000..U+00FF.

  \<open>str.strip()\<close> with no argument removes the characters for which \<open>str.isspace\<close> holds
  from both ends. Below U+0100 these are U+0009..U+000D, U+001C..U+001F, U+0020, U+0085
  and U+00A0.
\<close>

definition is_space :: "char \<Rightarrow> bool" where
  "is_space c = ((of_char c :: nat) \<in> {9, 10, 11, 12, 13, 28, 29, 30, 31, 32, 133, 160})"

definition lstrip :: "string \<Rightarrow> string" where
  "lstrip s = dropWhile is_space s"

definition rstrip :: "string \<Rightarrow> string" where
  "rstrip s = rev (dropWhile is_space (rev s))"

definition strip :: "string \<Rightarrow> string" where
  "strip s = rstrip (lstrip s)"

text \<open>
  \<open>s.split(",")\<close>: the fields between the commas, empty fields included; the empty string
  has one (empty) field.
\<close>

fun split_comma :: "string \<Rightarrow> string list" where
  "split_comma [] = [[]]"
| "split_comma (c # cs) =
     (if c = CHR '','' then [] # split_comma cs
      else (case split_comma cs of
              [] \<Rightarrow> [[c]]
            | w # ws \<Rightarrow> (c # w) # ws))"

text \<open>
  \<open>open(path, "r")\<close> reads with universal newlines: \<open>\r\n\<close> and a lone \<open>\r\<close> arrive as
  \<open>\n\<close>. \<open>read_text\<close> is what \<open>file.read()\<close> returns for the stored characters, and
  \<open>readlines\<close> cuts that text after every \<open>\n\<close>, keeping the terminator on each line.
\<close>

fun read_text :: "string \<Rightarrow> string" where
  "read_text [] = []"
| "read_text [c] = [if c = CHR 0x0D then CHR 0x0A else c]"
| "read_text (c # d # cs) =
     (if c = CHR 0x0D \<and> d = CHR 0x0A then CHR 0x0A # read_text cs
      else if c = CHR 0x0D then CHR 0x0A # read_text (d # cs)
      else c # read_text (d # cs))"

fun cut_lines :: "string \<Rightarrow> string list" where
  "cut_lines [] = []"
| "cut_lines (c # cs) =
     (if c = CHR 0x0A then [c] # cut_lines cs
      else (case cut_lines cs of
              [] \<Rightarrow> [[c]]
            | l # ls \<Rightarrow> (c # l) # ls))"

definition readlines :: "string \<Rightarrow> string list" where
  "readlines raw = cut_lines (read_text raw)"

section \<open>Exceptions, browser calls and the event trace\<close>

text \<open>
  The exceptions are the subclasses of \<open>Exception\<close> the code can meet: Playwright's
  \<open>TimeoutError\<close>, any other error of a browser call (with its message), the three the
  interpreter raises itself, and the \<open>PermissionError\<close> of a file that may not be removed. Interrupts (\<open>KeyboardInterrupt\<close>, task cancellation) are
  not \<open>Exception\<close>s and are outside the model.
\<close>

datatype exn =
    PlaywrightTimeoutError
  | Error string
  | IndexError
  | FileNotFoundError string
  | PermissionError string
  | TypeError "string list"

text \<open>
  Every call on the Playwright objects, with its arguments:
  \<open>async_playwright().start()\<close>, \<open>playwright.chromium.launch(headless=_)\<close>,
  \<open>browser.new_context(no_viewport=_)\<close>, \<open>context.set_default_timeout(_)\<close>,
  \<open>context.new_page()\<close>, \<open>context.pages[0]\<close> (an \<open>IndexError\<close> when the context has no
  page), \<open>page.goto\<close>, \<open>page.fill\<close>, \<open>page.click\<close>, \<open>page.wait_for_selector\<close> (a
  timeout of \<open>None\<close> is the context's default), \<open>page.keyboard.type\<close>,
  \<open>page.keyboard.press\<close>, \<open>context.close()\<close>, \<open>browser.close()\<close> and
  \<open>playwright.stop()\<close>; and the one call on the operating system that can fail on a file
  that is there, \<open>os.remove(path)\<close>.
\<close>

datatype call =
    StartPlaywright
  | LaunchChromium bool
  | NewContext bool
  | SetDefaultTimeout nat
  | NewPage
  | FirstPage
  | Goto string
  | Fill string string
  | Click string
  | WaitForSelector string "nat option"
  | KeyboardType string
  | KeyboardPress string
  | CloseContext
  | CloseBrowser
  | StopPlaywright
  | OsRemove string

text \<open>
  What the process does, in order: calls (recorded when invoked, whether they
  complete or raise), log lines (\<open>LogExn p e\<close> is the f-string \<open>p\<close> followed by the text of
  \<open>e\<close>) and sleeps (seconds).
\<close>

datatype event =
    Call call
  | Log string
  | LogExn string exn
  | Sleep nat

text \<open>
  The environment is the browser and the operating system: given the events so far and
  a call, it lets the call complete (\<open>None\<close>) or raises. The state is the trace and the files (path to stored
  characters; a path that is not a regular file is unmapped).
\<close>

type_synonym environment = "event list \<Rightarrow> call \<Rightarrow> exn option"

record state =
  trace :: "event list"
  files :: "string \<rightharpoonup> string"

definition log :: "event \<Rightarrow> state \<Rightarrow> state" where
  "log ev st = st\<lparr>trace := trace st @ [ev]\<rparr>"

definition perform :: "environment \<Rightarrow> event \<Rightarrow> state \<Rightarrow> (exn + unit) \<times> state" where
  "perform env ev st =
     (case ev of
        Call c \<Rightarrow> (case env (trace st) c of
                     None \<Rightarrow> (Inr (), log ev st)
                   | Some e \<Rightarrow> (Inl e, log ev st))
      | _ \<Rightarrow> (Inr (), log ev st))"

text \<open>A block of statements: each is performed in turn, and the first raise ends the block.\<close>

fun run :: "environment \<Rightarrow> event list \<Rightarrow> state \<Rightarrow> (exn + unit) \<times> state" where
  "run env [] st = (Inr (), st)"
| "run env (ev # evs) st =
     (case perform env ev st of
        (Inl e, st') \<Rightarrow> (Inl e, st')
      | (Inr _, st') \<Rightarrow> run env evs st')"

definition and_then ::
  "(exn + unit) \<times> state \<Rightarrow> (state \<Rightarrow> (exn + unit) \<times> state) \<Rightarrow> (exn + unit) \<times> state" where
  "and_then r k = (case r of (Inl e, st) \<Rightarrow> (Inl e, st) | (Inr _, st) \<Rightarrow> k st)"

text \<open>\<open>except PlaywrightTimeoutError:\<close> around a block; any other exception passes.\<close>

definition except_timeout ::
  "(exn + unit) \<times> state \<Rightarrow> (state \<Rightarrow> (exn + unit) \<times> state) \<Rightarrow> (exn + unit) \<times> state" where
  "except_timeout r handler =
     (case r of
        (Inl PlaywrightTimeoutError, st) \<Rightarrow> handler st
      | _ \<Rightarrow> r)"

text \<open>\<open>xs[i]\<close> for a non-negative index.\<close>

definition index :: "'a list \<Rightarrow> nat \<Rightarrow> exn + 'a" where
  "index xs i = (if i < length xs then Inr (xs ! i) else Inl IndexError)"

section \<open>outlook\_authentication.py\<close>

definition sel_email :: string where
  "sel_email = ''input[type=\"email\"]''"

definition sel_password :: string where
  "sel_password = ''input[type=\"password\"]''"

definition sel_submit :: string where
  "sel_submit = ''input[type=\"submit\"]''"

definition sel_stay_signed_in :: string where
  "sel_stay_signed_in = ''#idSIButton9''"

definition sel_new_mail :: string where
  "sel_new_mail = ''[aria-label=\"New mail\"]''"

record OutlookConfig =
  email :: string
  password :: string
  username :: string
  outlook_url :: string

text \<open>
  The dataclass's generated \<open>__init__\<close>, called with keyword arguments; an argument that
  is left out is \<open>None\<close>. The first three fields have no default, so leaving one out
  raises \<open>TypeError\<close> naming the missing ones.
\<close>

definition OutlookConfig_init ::
  "string option \<Rightarrow> string option \<Rightarrow> string option \<Rightarrow> string option \<Rightarrow> exn + OutlookConfig" where
  "OutlookConfig_init e p u url =
     (case (e, p, u) of
        (Some e', Some p', Some u') \<Rightarrow>
          Inr \<lparr>email = e', password = p', username = u',
               outlook_url = (case url of None \<Rightarrow> ''https://outlook.office.com'' | Some x \<Rightarrow> x)\<rparr>
      | _ \<Rightarrow>
          Inl (TypeError ((if e = None then [''email''] else [])
                          @ (if p = None then [''password''] else [])
                          @ (if u = None then [''username''] else []))))"

text \<open>The three handles \<open>setup_browser\<close> returns; each is \<open>None\<close> or the object.\<close>

datatype playwright = Playwright
datatype browser_handle = Browser
datatype browser_context = BrowserContext

type_synonym handles = "playwright option \<times> browser_handle option \<times> browser_context option"

text \<open>
  The statements of the \<open>try\<close> of \<open>setup_browser\<close>. \<open>new_context\<close> returns a context or
  raises, so the branch for \<open>context is None\<close> is never taken and is left out.
\<close>

definition start_browser :: "event list" where
  "start_browser =
     [Call StartPlaywright,
      Call (LaunchChromium False),
      Call (NewContext True),
      Call (SetDefaultTimeout 2147483647),
      Log ''Browser context created with extended timeout.'']"

definition setup_browser :: "environment \<Rightarrow> state \<Rightarrow> handles \<times> state" where
  "setup_browser env st =
     (case run env start_browser st of
        (Inr _, st') \<Rightarrow> ((Some Playwright, Some Browser, Some BrowserContext), st')
      | (Inl e, st') \<Rightarrow> ((None, None, None), log (LogExn ''Error setting up browser: '' e) st'))"

text \<open>
  The statements of \<open>authenticate_outlook\<close>, block by block: the email form, the password
  form of the external flow, the optional "stay signed in" prompt, and the wait for the
  mailbox.
\<close>

definition enter_email :: "OutlookConfig \<Rightarrow> event list" where
  "enter_email config =
     [Call NewPage,
      Log (''Navigating to '' @ outlook_url config),
      Call (Goto (outlook_url config)),
      Log ''Filling email'',
      Call (Fill sel_email (email config)),
      Call (Click sel_submit)]"

definition manual_handoff :: "event list" where
  "manual_handoff =
     [Log ''Internal authentication -- please handle the authentication manually'']"

definition enter_password :: "OutlookConfig \<Rightarrow> event list" where
  "enter_password config =
     [Log ''Using external authentication flow'',
      Log ''Waiting for password input'',
      Call (WaitForSelector sel_password (Some 60000)),
      Call (Fill sel_password (password config)),
      Call (Click sel_submit),
      Log ''Checking for 'Stay signed in?' prompt'']"

definition stay_signed_in :: "event list" where
  "stay_signed_in =
     [Call (WaitForSelector sel_stay_signed_in (Some 60000)),
      Call (Click sel_stay_signed_in),
      Log (''Clicked 'Stay signed in'' @ [CHR 0x27])]"

definition no_prompt :: "event list" where
  "no_prompt = [Log ''No 'Stay signed in?' prompt detected. Continuing...'']"

definition await_mailbox :: "event list" where
  "await_mailbox =
     [Log ''Waiting for the final page to load'',
      Call (WaitForSelector sel_new_mail (Some 60000)),
      Log ''Authenticated successfully.'']"

text \<open>The body of the \<open>try\<close> of \<open>authenticate_outlook\<close>.\<close>

definition authenticate_outlook_try ::
  "environment \<Rightarrow> OutlookConfig \<Rightarrow> state \<Rightarrow> (exn + unit) \<times> state" where
  "authenticate_outlook_try env config st =
     and_then (run env (enter_email config) st)
     (\<lambda>st1.
       and_then
         (if username config \<noteq> [] then run env manual_handoff st1
          else
            and_then (run env (enter_password config) st1)
            (\<lambda>st2. except_timeout (run env stay_signed_in st2) (run env no_prompt)))
         (run env await_mailbox))"

definition authenticate_outlook :: "environment \<Rightarrow> OutlookConfig \<Rightarrow> state \<Rightarrow> bool \<times> state" where
  "authenticate_outlook env config st =
     (case authenticate_outlook_try env config st of
        (Inr _, st') \<Rightarrow> (True, st')
      | (Inl e, st') \<Rightarrow> (False, log (LogExn ''Error during authentication: '' e) st'))"

text \<open>The options \<open>auth_argparse\<close> returns (\<open>--email\<close>, \<open>--password\<close>, \<open>--username\<close>).\<close>

record auth_options =
  auth_email :: string
  auth_password :: string
  auth_username :: string

definition authenticate :: "environment \<Rightarrow> auth_options \<Rightarrow> state \<Rightarrow> (exn + unit) \<times> state" where
  "authenticate env options st =
     (case OutlookConfig_init (Some (auth_email options)) (Some (auth_password options))
             (Some (auth_username options)) None of
        Inl e \<Rightarrow> (Inl e, st)
      | Inr config \<Rightarrow>
          (case setup_browser env st of
             ((playwright, browser, context), st1) \<Rightarrow>
               (let st2 =
                  (if context = None then
                     log (Log ''Browser context was not defined. Critical error'') st1
                   else
                     (case authenticate_outlook env config st1 of
                        (authenticated, st') \<Rightarrow>
                          (if authenticated then
                             log (Log ''Authentication was successful. You can proceed with sending emails.'') st'
                           else
                             log (Log ''Authentication failed. Please check your credentials and try again.'') st')))
                in
                  if context \<noteq> None \<and> browser \<noteq> None \<and> playwright \<noteq> None then
                    run env [Call CloseContext, Call CloseBrowser, Call StopPlaywright] st2
                  else (Inr (), st2))))"

section \<open>outlook\_email\_sender.py\<close>

definition sel_to :: string where
  "sel_to = ''[aria-label=\"To\"]''"

definition sel_subject :: string where
  "sel_subject = ''[placeholder=\"Add a subject\"]''"

definition sel_sent :: string where
  "sel_sent = ''#EmptyState_MainMessage''"

record EmailDetails =
  recipient :: string
  subject :: string
  body_file :: string

text \<open>
  The loop over \<open>enumerate(recipients)\<close>: \<open>n\<close> is \<open>len(recipients)\<close>, \<open>i\<close> the index of the
  first recipient left.
\<close>

fun fill_recipients :: "nat \<Rightarrow> nat \<Rightarrow> string list \<Rightarrow> event list" where
  "fill_recipients n i [] = []"
| "fill_recipients n i (r # rest) =
     Call (Fill sel_to (strip r))
     # (if int i < int n - 1 then [Call (KeyboardType '',''), Call (KeyboardPress ''Space'')]
        else [])
     @ fill_recipients n (Suc i) rest"

text \<open>The statements of \<open>send_email\<close> up to the end of the recipient loop, and after it.\<close>

definition compose_open :: "event list" where
  "compose_open =
     [Call FirstPage,
      Log (''Clicking 'New mail'' @ [CHR 0x27]),
      Call (Click sel_new_mail),
      Call (WaitForSelector sel_to None),
      Log ''Filling email details'']"

definition compose_subject :: "EmailDetails \<Rightarrow> event list" where
  "compose_subject email_details =
     [Call (Fill sel_subject (strip (subject email_details))),
      Call (KeyboardPress ''Tab''),
      Log ''Adding email body'']"

definition compose_body :: "EmailDetails \<Rightarrow> string \<Rightarrow> event list" where
  "compose_body email_details body =
     [Call (KeyboardType body),
      Log ''Sending email'',
      Call (KeyboardPress ''Control+Enter''),
      Log ''Waiting for email sent confirmation'',
      Call (WaitForSelector sel_sent (Some 30000)),
      Log (''Email sent to '' @ recipient email_details @ ''.'')]"

definition send_email_try :: "environment \<Rightarrow> EmailDetails \<Rightarrow> state \<Rightarrow> (exn + unit) \<times> state" where
  "send_email_try env email_details st =
     (let recipients = split_comma (recipient email_details) in
      and_then (run env (compose_open
                         @ fill_recipients (length recipients) 0 recipients
                         @ compose_subject email_details) st)
      (\<lambda>st1.
        (case files st1 (body_file email_details) of
           None \<Rightarrow> (Inl (FileNotFoundError (body_file email_details)), st1)
         | Some raw \<Rightarrow> run env (compose_body email_details (strip (read_text raw))) st1)))"

definition send_email :: "environment \<Rightarrow> EmailDetails \<Rightarrow> state \<Rightarrow> bool \<times> state" where
  "send_email env email_details st =
     (case send_email_try env email_details st of
        (Inr _, st') \<Rightarrow> (True, st')
      | (Inl e, st') \<Rightarrow> (False, log (LogExn ''Error sending email: '' e) st'))"

text \<open>
  \<open>os.remove(path)\<close>: \<open>FileNotFoundError\<close> when the file is not there; otherwise the
  operating system removes the file or refuses (the file stays and the call raises).
\<close>

definition os_remove :: "environment \<Rightarrow> string \<Rightarrow> state \<Rightarrow> (exn + unit) \<times> state" where
  "os_remove env path st =
     (let st' = log (Call (OsRemove path)) st in
      case files st path of
        None \<Rightarrow> (Inl (FileNotFoundError path), st')
      | Some _ \<Rightarrow>
          (case env (trace st) (OsRemove path) of
             Some e \<Rightarrow> (Inl e, st')
           | None \<Rightarrow> (Inr (), st'\<lparr>files := (files st')(path := None)\<rparr>)))"

text \<open>
  The three lines of the trigger file, stripped: the body of the \<open>with\<close> in
  \<open>listen_for_email_requests\<close>.
\<close>

definition parse_request :: "string list \<Rightarrow> exn + EmailDetails" where
  "parse_request lines =
     (case index lines 0 of
        Inl e \<Rightarrow> Inl e
      | Inr l0 \<Rightarrow>
          (case index lines 1 of
             Inl e \<Rightarrow> Inl e
           | Inr l1 \<Rightarrow>
               (case index lines 2 of
                  Inl e \<Rightarrow> Inl e
                | Inr l2 \<Rightarrow>
                    Inr \<lparr>recipient = strip l0, subject = strip l1, body_file = strip l2\<rparr>)))"

text \<open>The body of the \<open>try\<close> of one pass of the \<open>while True\<close> loop.\<close>

definition poll_try :: "environment \<Rightarrow> string \<Rightarrow> state \<Rightarrow> (exn + unit) \<times> state" where
  "poll_try env triggerFile st =
     (case files st triggerFile of
        None \<Rightarrow> (Inr (), st)
      | Some raw \<Rightarrow>
          (let st1 = log (Log (''Notification file found: '' @ triggerFile)) st in
           case parse_request (readlines raw) of
             Inl e \<Rightarrow> (Inl e, st1)
           | Inr email_details \<Rightarrow>
               (case send_email env email_details st1 of
                  (email_sent, st2) \<Rightarrow>
                    (if email_sent then
                       and_then (os_remove env triggerFile st2)
                         (\<lambda>st3. (Inr (), log (Log (''Notification file processed and removed: ''
                                                      @ triggerFile)) st3))
                     else
                       (Inr (), log (Log (''Failed to send email. Notification file not removed: ''
                                           @ triggerFile)) st2)))))"

text \<open>One pass: the \<open>try\<close>, its \<open>except Exception\<close>, and the sleep.\<close>

definition poll_cycle :: "environment \<Rightarrow> string \<Rightarrow> state \<Rightarrow> state" where
  "poll_cycle env triggerFile st =
     (case poll_try env triggerFile st of
        (Inr _, st') \<Rightarrow> log (Sleep 5) st'
      | (Inl e, st') \<Rightarrow> log (Sleep 5) (log (LogExn ''Error in listen_for_email_requests: '' e) st'))"

text \<open>
  The loop has no exit, so the function never returns; \<open>listen_for_email_requests n\<close> is the
  state after its first \<open>n\<close> passes.
\<close>

fun poll_loop :: "nat \<Rightarrow> environment \<Rightarrow> string \<Rightarrow> state \<Rightarrow> state" where
  "poll_loop 0 env triggerFile st = st"
| "poll_loop (Suc n) env triggerFile st = poll_loop n env triggerFile (poll_cycle env triggerFile st)"

definition listen_for_email_requests :: "nat \<Rightarrow> environment \<Rightarrow> string \<Rightarrow> state \<Rightarrow> state" where
  "listen_for_email_requests n env triggerFile st =
     poll_loop n env triggerFile (log (Log ''Waiting for email notifications...'') st)"

text \<open>The options \<open>send_argparse\<close> returns (\<open>--email\<close>, \<open>--password\<close>, \<open>--notification\<close>).\<close>

record send_options =
  send_email_opt :: string
  send_password :: string
  send_notification :: string

text \<open>
  How \<open>async_main\<close> ends: it returns, an exception leaves it, or it is still in the poll
  loop after the passes that were observed.
\<close>

datatype outcome = Returned | Raised exn | Polling

text \<open>The \<open>finally\<close> of \<open>async_main\<close>.\<close>

definition cleanup :: "environment \<Rightarrow> handles \<Rightarrow> state \<Rightarrow> (exn + unit) \<times> state" where
  "cleanup env h st =
     (case h of
        (playwright, browser, context) \<Rightarrow>
          run env ([Log ''Cleaning up resources...'']
                   @ (if context \<noteq> None then [Call CloseContext] else [])
                   @ (if browser \<noteq> None then [Call CloseBrowser] else [])
                   @ (if playwright \<noteq> None then [Call StopPlaywright] else [])) st)"

text \<open>
  \<open>async_main\<close>, observed for \<open>n\<close> passes of the poll loop. Nothing inside its \<open>try\<close> raises
  an \<open>Exception\<close> (both callees catch their own), so its two handlers have no case here.
\<close>

definition async_main :: "nat \<Rightarrow> environment \<Rightarrow> send_options \<Rightarrow> state \<Rightarrow> outcome \<times> state" where
  "async_main n env options st =
     (case OutlookConfig_init (Some (send_email_opt options)) (Some (send_password options))
             None None of
        Inl e \<Rightarrow> (Raised e, st)
      | Inr config \<Rightarrow>
          (case setup_browser env st of
             ((playwright, browser, context), st1) \<Rightarrow>
               (if playwright = None \<or> browser = None \<or> context = None then
                  (Returned, log (Log ''Failed to set up browser. Exiting.'') st1)
                else
                  (case authenticate_outlook env config
                          (log (Log ''Starting authentication process...'') st1) of
                     (authenticated, st2) \<Rightarrow>
                       (if authenticated then
                          (Polling,
                           listen_for_email_requests n env (send_notification options)
                             (log (Log ''Press Ctrl+C to stop the script at any time.'')
                               (log (Log ''Authentication successful. The script will now run indefinitely.'')
                                 st2)))
                        else
                          (case cleanup env (playwright, browser, context)
                                  (log (Log ''Failed to authenticate. Exiting.'') st2) of
                             (Inl e, st3) \<Rightarrow> (Raised e, st3)
                           | (Inr _, st3) \<Rightarrow> (Returned, st3)))))))"

section \<open>Vocabulary of the claims\<close>

text \<open>
  An event on the password field: a fill, a click or a wait on its selector.
\<close>

definition on_password_field :: "event \<Rightarrow> bool" where
  "on_password_field ev =
     (case ev of
        Call (Fill s v) \<Rightarrow> s = sel_password
      | Call (Click s) \<Rightarrow> s = sel_password
      | Call (WaitForSelector s t) \<Rightarrow> s = sel_password
      | _ \<Rightarrow> False)"

text \<open>A release of a browser resource: the context, the browser or the driver.\<close>

definition is_release :: "event \<Rightarrow> bool" where
  "is_release ev =
     (case ev of
        Call CloseContext \<Rightarrow> True
      | Call CloseBrowser \<Rightarrow> True
      | Call StopPlaywright \<Rightarrow> True
      | _ \<Rightarrow> False)"

text \<open>A fill of the recipient field.\<close>

definition is_recipient_fill :: "event \<Rightarrow> bool" where
  "is_recipient_fill ev = (case ev of Call (Fill s v) \<Rightarrow> s = sel_to | _ \<Rightarrow> False)"

text \<open>
  The keystrokes the specification asks for, for a non-empty list of addresses: every
  address but the last is filled and followed by a comma and a space, and the last is
  filled and followed by nothing.
\<close>

definition recipient_keystrokes :: "string list \<Rightarrow> event list" where
  "recipient_keystrokes addresses =
     concat (map (\<lambda>a. [Call (Fill sel_to a), Call (KeyboardType '',''),
                         Call (KeyboardPress ''Space'')])
                 (butlast addresses))
     @ [Call (Fill sel_to (last addresses))]"

text \<open>
  The calls that raised, read off a trace: \<open>raised env t evs\<close> lists, for the events \<open>evs\<close>
  that followed the trace \<open>t\<close>, each call the environment answered with an exception,
  with that exception. A \<open>prompt_timeout\<close> is a Playwright timeout of the wait for, or the
  click on, the "stay signed in" button; the \<open>failures\<close> are the other raises.
\<close>

fun raised :: "environment \<Rightarrow> event list \<Rightarrow> event list \<Rightarrow> (call \<times> exn) list" where
  "raised env t [] = []"
| "raised env t (ev # evs) =
     (case ev of
        Call c \<Rightarrow> (case env t c of None \<Rightarrow> [] | Some e \<Rightarrow> [(c, e)])
      | _ \<Rightarrow> [])
     @ raised env (t @ [ev]) evs"

definition prompt_timeout :: "call \<times> exn \<Rightarrow> bool" where
  "prompt_timeout ce =
     (snd ce = PlaywrightTimeoutError
      \<and> (fst ce = WaitForSelector sel_stay_signed_in (Some 60000)
         \<or> fst ce = Click sel_stay_signed_in))"

definition failures :: "environment \<Rightarrow> event list \<Rightarrow> event list \<Rightarrow> (call \<times> exn) list" where
  "failures env t evs = filter (\<lambda>ce. \<not> prompt_timeout ce) (raised env t evs)"

text \<open>
  The result of a block that started at trace \<open>t\<close> accounts for its raises: when it
  completed there was no failure, and when it raised \<open>e\<close> the one failure is its last
  event, a call that the environment answered with \<open>e\<close>.
\<close>

definition accounted :: "environment \<Rightarrow> event list \<Rightarrow> (exn + unit) \<times> state \<Rightarrow> bool" where
  "accounted env t r =
     (\<exists>new. trace (snd r) = t @ new
        \<and> (case fst r of
             Inr u \<Rightarrow> failures env t new = []
           | Inl e \<Rightarrow> (\<exists>pre c. new = pre @ [Call c] \<and> failures env t new = [(c, e)]
                          \<and> env (t @ pre) c = Some e)))"

text \<open>\<open>",".join(fields)\<close>, the inverse of the split at the commas.\<close>

fun join_comma :: "string list \<Rightarrow> string" where
  "join_comma [] = []"
| "join_comma [r] = r"
| "join_comma (r # r' # rs) = r @ '','' @ join_comma (r' # rs)"

section \<open>Example inputs\<close>

text \<open>
  A browser in which every call completes, and the scenario of the specification: a
  trigger file naming two recipients, a subject and a body file.
\<close>

definition always_ok :: environment where
  "always_ok t c = None"

definition example_trigger :: string where
  "example_trigger =
     ''alice@example.com,bob@example.com'' @ [CHR 0x0A]
     @ ''Project update'' @ [CHR 0x0A]
     @ ''/tmp/body.txt''"

definition example_state :: state where
  "example_state =
     \<lparr>trace = [],
      files = [''/tmp/notification.txt'' \<mapsto> example_trigger,
               ''/tmp/body.txt'' \<mapsto> ''Hello team'']\<rparr>"

definition example_details :: EmailDetails where
  "example_details =
     \<lparr>recipient = ''alice@example.com,bob@example.com'', subject = ''Project update'',
      body_file = ''/tmp/body.txt''\<rparr>"



text \<open>
  A browser in which the "stay signed in" prompt never appears, and the two
  configurations: without a username (external flow) and with one (manual hand-off).
\<close>

definition prompt_times_out :: environment where
  "prompt_times_out t c =
     (if c = WaitForSelector sel_stay_signed_in (Some 60000) then Some PlaywrightTimeoutError
      else None)"

definition example_config :: OutlookConfig where
  "example_config =
     \<lparr>email = ''name@example.com'', password = ''password'', username = '''',
      outlook_url = ''https://outlook.office.com''\<rparr>"

definition handoff_config :: OutlookConfig where
  "handoff_config =
     \<lparr>email = ''name@example.com'', password = ''password'', username = ''jdoe'',
      outlook_url = ''https://outlook.office.com''\<rparr>"

text \<open>
  An environment in which every browser call completes and the operating system refuses
  to remove the trigger file (as in a directory with the sticky bit, for a file of
  another user).
\<close>

definition remove_denied :: environment where
  "remove_denied t c =
     (if c = OsRemove ''/tmp/notification.txt''
      then Some (PermissionError ''/tmp/notification.txt'') else None)"

text \<open>
  An environment in which the fill of the first recipient raises, and a request whose
  recipient line has spaces around the addresses.
\<close>

definition first_fill_raises :: environment where
  "first_fill_raises t c =
     (if c = Fill sel_to ''alice@example.com'' then Some (Error ''fill failed'') else None)"

definition spaced_details :: EmailDetails where
  "spaced_details =
     \<lparr>recipient = '' alice@example.com , bob@example.com'', subject = ''Project update'',
      body_file = ''/tmp/body.txt''\<rparr>"

section \<open>Blocks of statements\<close>

lemma run_append:
  "run env (xs @ ys) st = and_then (run env xs st) (run env ys)"
  by (induction xs arbitrary: st) (auto simp: and_then_def split: prod.splits sum.splits)

lemma perform_files: "files (snd (perform env ev st)) = files st"
  by (simp add: perform_def log_def split: event.splits option.splits)

lemma perform_trace: "trace (snd (perform env ev st)) = trace st @ [ev]"
  by (simp add: perform_def log_def split: event.splits option.splits)

lemma run_files: "files (snd (run env evs st)) = files st"
proof (induction evs arbitrary: st)
  case Nil
  show ?case by simp
next
  case (Cons ev evs)
  obtain r st' where p: "perform env ev st = (r, st')" by (cases "perform env ev st")
  have f: "files st' = files st" using perform_files [of env ev st] p by simp
  show ?case
  proof (cases r)
    case (Inl e)
    with p f show ?thesis by simp
  next
    case (Inr u)
    with p f Cons.IH [of st'] show ?thesis by simp
  qed
qed

lemma run_trace_prefix: "\<exists>k\<le>length evs. trace (snd (run env evs st)) = trace st @ take k evs"
proof (induction evs arbitrary: st)
  case Nil
  show ?case by simp
next
  case (Cons ev evs)
  obtain r st' where p: "perform env ev st = (r, st')" by (cases "perform env ev st")
  have t: "trace st' = trace st @ [ev]" using perform_trace [of env ev st] p by simp
  show ?case
  proof (cases r)
    case (Inl e)
    with p t have "trace (snd (run env (ev # evs) st)) = trace st @ take 1 (ev # evs)" by simp
    then show ?thesis by (intro exI [of _ 1]) simp
  next
    case (Inr u)
    from Cons.IH [of st'] obtain k where k: "k \<le> length evs"
      "trace (snd (run env evs st')) = trace st' @ take k evs" by blast
    with p t Inr have "trace (snd (run env (ev # evs) st)) = trace st @ take (Suc k) (ev # evs)"
      by simp
    with k(1) show ?thesis by (intro exI [of _ "Suc k"]) simp
  qed
qed

lemma run_trace_complete:
  "fst (run env evs st) = Inr u \<Longrightarrow> trace (snd (run env evs st)) = trace st @ evs"
proof (induction evs arbitrary: st)
  case Nil
  show ?case by simp
next
  case (Cons ev evs)
  obtain r st' where p: "perform env ev st = (r, st')" by (cases "perform env ev st")
  have t: "trace st' = trace st @ [ev]" using perform_trace [of env ev st] p by simp
  show ?case
  proof (cases r)
    case (Inl e)
    with p Cons.prems show ?thesis by simp
  next
    case (Inr v)
    with p Cons.prems have "fst (run env evs st') = Inr u" by simp
    from Cons.IH [OF this] p t Inr show ?thesis by simp
  qed
qed


lemma list_all_take: "list_all P xs \<Longrightarrow> list_all P (take k xs)"
  by (auto simp: list_all_iff dest: in_set_takeD)

lemma count_list_take: "count_list (take k xs) x \<le> count_list xs x"
proof (induction xs arbitrary: k)
  case Nil
  show ?case by simp
next
  case (Cons y ys)
  show ?case
  proof (cases k)
    case 0
    then show ?thesis by simp
  next
    case (Suc j)
    with Cons.IH [of j] show ?thesis by simp
  qed
qed

lemma run_trace_all:
  assumes "list_all P evs"
  shows "\<exists>new. trace (snd (run env evs st)) = trace st @ new \<and> list_all P new"
proof -
  from run_trace_prefix [of evs env st] obtain k where
    "trace (snd (run env evs st)) = trace st @ take k evs" by blast
  with list_all_take [OF assms, of k] show ?thesis by blast
qed

lemma and_then_run_run:
  "and_then (run env xs st) (\<lambda>s. and_then (run env ys s) (run env zs)) = run env (xs @ ys @ zs) st"
proof -
  have "(\<lambda>s. and_then (run env ys s) (run env zs)) = run env (ys @ zs)"
    by (rule ext) (simp add: run_append)
  then show ?thesis by (simp add: run_append)
qed

lemma and_then_Inr:
  "and_then r k = (Inr u, s) \<Longrightarrow> \<exists>v s0. r = (Inr v, s0) \<and> k s0 = (Inr u, s)"
  by (cases r) (auto simp: and_then_def split: sum.splits)

lemma and_then_trace_all:
  assumes "\<exists>new. trace (snd r) = trace st @ new \<and> list_all P new"
    and "\<And>s. \<exists>new. trace (snd (k s)) = trace s @ new \<and> list_all P new"
  shows "\<exists>new. trace (snd (and_then r k)) = trace st @ new \<and> list_all P new"
proof (cases r)
  case (Pair x s)
  from assms(1) Pair obtain n1 where n1: "trace s = trace st @ n1" "list_all P n1" by auto
  show ?thesis
  proof (cases x)
    case (Inl e)
    with Pair n1 show ?thesis by (auto simp: and_then_def)
  next
    case (Inr u)
    from assms(2) [of s] obtain n2 where "trace (snd (k s)) = trace s @ n2" "list_all P n2"
      by blast
    with Pair Inr n1 have "trace (snd (and_then r k)) = trace st @ (n1 @ n2) \<and> list_all P (n1 @ n2)"
      by (simp add: and_then_def)
    then show ?thesis by blast
  qed
qed

lemma except_timeout_trace_all:
  assumes "\<exists>new. trace (snd r) = trace st @ new \<and> list_all P new"
    and "\<And>s. \<exists>new. trace (snd (k s)) = trace s @ new \<and> list_all P new"
  shows "\<exists>new. trace (snd (except_timeout r k)) = trace st @ new \<and> list_all P new"
proof (cases r)
  case (Pair x s)
  from assms(1) Pair obtain n1 where n1: "trace s = trace st @ n1" "list_all P n1" by auto
  from assms(2) [of s] obtain n2 where n2: "trace (snd (k s)) = trace s @ n2" "list_all P n2"
    by blast
  have h: "trace (snd (k s)) = trace st @ (n1 @ n2) \<and> list_all P (n1 @ n2)"
    using n1 n2 by simp
  show ?thesis
  proof (cases "x = Inl PlaywrightTimeoutError")
    case True
    with Pair h show ?thesis unfolding except_timeout_def by auto
  next
    case False
    with Pair have "except_timeout r k = r"
      by (auto simp: except_timeout_def split: sum.splits exn.splits)
    with assms(1) show ?thesis by simp
  qed
qed

lemma list_all_always: "(\<And>x. P x) \<Longrightarrow> list_all P xs"
  by (induction xs) simp_all

lemma raised_append: "raised env t (xs @ ys) = raised env t xs @ raised env (t @ xs) ys"
  by (induction xs arbitrary: t) simp_all

lemma failures_append:
  "failures env t (xs @ ys) = failures env t xs @ failures env (t @ xs) ys"
  by (simp add: failures_def raised_append)

lemma run_raised:
  "\<exists>new. trace (snd (run env evs st)) = trace st @ new
     \<and> (case fst (run env evs st) of
          Inr u \<Rightarrow> new = evs \<and> raised env (trace st) new = []
        | Inl e \<Rightarrow> (\<exists>pre c. new = pre @ [Call c] \<and> Call c \<in> set evs
                       \<and> raised env (trace st) new = [(c, e)]
                       \<and> env (trace st @ pre) c = Some e))"
proof (induction evs arbitrary: st)
  case Nil
  show ?case by simp
next
  case (Cons ev evs)
  obtain x s' where p: "perform env ev st = (x, s')" by (cases "perform env ev st")
  have t: "trace s' = trace st @ [ev]" using perform_trace [of env ev st] p by simp
  show ?case
  proof (cases x)
    case (Inl e)
    with p obtain c where c: "ev = Call c" "env (trace st) c = Some e"
      by (auto simp: perform_def split: event.splits option.splits)
    have a1: "trace (snd (run env (ev # evs) st)) = trace st @ [Call c]"
      and a2: "fst (run env (ev # evs) st) = Inl e"
      using p t Inl c by simp_all
    have a3: "\<exists>pre c'. [Call c] = pre @ [Call c'] \<and> Call c' \<in> set (ev # evs)
        \<and> raised env (trace st) [Call c] = [(c', e)] \<and> env (trace st @ pre) c' = Some e"
      using c by (intro exI [of _ "[]"] exI [of _ c]) simp
    show ?thesis
      by (rule exI [of _ "[Call c]"]) (simp only: a1 a2 a3 sum.case simp_thms)
  next
    case (Inr u)
    have none: "(case ev of Call c \<Rightarrow> (case env (trace st) c of None \<Rightarrow> [] | Some e \<Rightarrow> [(c, e)])
                 | _ \<Rightarrow> []) = []"
      using p Inr by (auto simp: perform_def split: event.splits option.splits)
    have r: "run env (ev # evs) st = run env evs s'" using p Inr by simp
    from Cons.IH [of s'] obtain new where n: "trace (snd (run env evs s')) = trace s' @ new"
      "(case fst (run env evs s') of
          Inr u \<Rightarrow> new = evs \<and> raised env (trace s') new = []
        | Inl e \<Rightarrow> (\<exists>pre c. new = pre @ [Call c] \<and> Call c \<in> set evs
                       \<and> raised env (trace s') new = [(c, e)]
                       \<and> env (trace s' @ pre) c = Some e))"
      by blast
    have rr: "raised env (trace st) (ev # new) = raised env (trace s') new"
      using none t by simp
    have a1: "trace (snd (run env (ev # evs) st)) = trace st @ (ev # new)"
      using n(1) r t by simp
    show ?thesis
    proof (cases "fst (run env evs s')")
      case (Inr v)
      with n(2) have e: "new = evs" "raised env (trace s') new = []" by auto
      have a2: "fst (run env (ev # evs) st) = Inr v" using r Inr by simp
      have a1': "trace (snd (run env (ev # evs) st)) = trace st @ (ev # evs)"
        using a1 e by simp
      have a3: "raised env (trace st) (ev # evs) = []"
        using e rr by simp
      show ?thesis
        by (rule exI [of _ "ev # evs"]) (simp only: a1' a2 a3 sum.case simp_thms)
    next
      case (Inl e)
      with n(2) obtain pre c where pc: "new = pre @ [Call c]" "Call c \<in> set evs"
        "raised env (trace s') new = [(c, e)]" "env (trace s' @ pre) c = Some e"
        by auto
      have a2: "fst (run env (ev # evs) st) = Inl e" using r Inl by simp
      have a3: "\<exists>pre' c'. ev # new = pre' @ [Call c'] \<and> Call c' \<in> set (ev # evs)
            \<and> raised env (trace st) (ev # new) = [(c', e)]
            \<and> env (trace st @ pre') c' = Some e"
        using pc rr t by (intro exI [of _ "ev # pre"] exI [of _ c]) simp
      show ?thesis
        by (rule exI [of _ "ev # new"]) (simp only: a1 a2 a3 sum.case simp_thms)
    qed
  qed
qed

lemma accounted_run:
  assumes "\<And>c e. Call c \<in> set evs \<Longrightarrow> \<not> prompt_timeout (c, e)"
  shows "accounted env (trace st) (run env evs st)"
proof -
  from run_raised [of env evs st] obtain new where
    n: "trace (snd (run env evs st)) = trace st @ new"
    and c: "(case fst (run env evs st) of
          Inr u \<Rightarrow> new = evs \<and> raised env (trace st) new = []
        | Inl e \<Rightarrow> (\<exists>pre c. new = pre @ [Call c] \<and> Call c \<in> set evs
                       \<and> raised env (trace st) new = [(c, e)]
                       \<and> env (trace st @ pre) c = Some e))"
    by blast
  show ?thesis
  proof (cases "fst (run env evs st)")
    case (Inr u)
    with c have "failures env (trace st) new = []" by (auto simp: failures_def)
    with n Inr show ?thesis unfolding accounted_def by (intro exI [of _ new]) simp
  next
    case (Inl e)
    with c obtain pre c' where pc: "new = pre @ [Call c']" "Call c' \<in> set evs"
      "raised env (trace st) new = [(c', e)]" "env (trace st @ pre) c' = Some e"
      by auto
    from assms [OF pc(2)] pc(3) have "failures env (trace st) new = [(c', e)]"
      by (simp add: failures_def)
    with pc have "\<exists>pre c. new = pre @ [Call c] \<and> failures env (trace st) new = [(c, e)]
                          \<and> env (trace st @ pre) c = Some e"
      by blast
    with n Inl show ?thesis unfolding accounted_def by (intro exI [of _ new]) simp
  qed
qed

lemma accounted_and_then:
  assumes "accounted env t r" and "\<And>s. accounted env (trace s) (k s)"
  shows "accounted env t (and_then r k)"
proof (cases r)
  case (Pair x s)
  show ?thesis
  proof (cases x)
    case (Inl e)
    with Pair have "and_then r k = r" by (simp add: and_then_def)
    with assms(1) show ?thesis by simp
  next
    case (Inr u)
    from assms(1) Pair Inr obtain n1 where n1: "trace s = t @ n1" "failures env t n1 = []"
      unfolding accounted_def by auto
    from assms(2) [of s] obtain n2 where n2: "trace (snd (k s)) = trace s @ n2"
      and c2: "(case fst (k s) of
             Inr u \<Rightarrow> failures env (trace s) n2 = []
           | Inl e \<Rightarrow> (\<exists>pre c. n2 = pre @ [Call c] \<and> failures env (trace s) n2 = [(c, e)]
                          \<and> env (trace s @ pre) c = Some e))"
      unfolding accounted_def by blast
    have k: "and_then r k = k s" using Pair Inr by (simp add: and_then_def)
    have f: "failures env t (n1 @ n2) = failures env (trace s) n2"
      using n1 by (simp add: failures_append)
    have tr: "trace (snd (k s)) = t @ (n1 @ n2)" using n1 n2 by simp
    show ?thesis
    proof (cases "fst (k s)")
      case (Inr v)
      with c2 f have "failures env t (n1 @ n2) = []" by simp
      with tr Inr show ?thesis unfolding accounted_def k by (intro exI [of _ "n1 @ n2"]) simp
    next
      case (Inl e)
      with c2 obtain pre c where pc: "n2 = pre @ [Call c]"
        "failures env (trace s) n2 = [(c, e)]" "env (trace s @ pre) c = Some e"
        by auto
      have "n1 @ n2 = (n1 @ pre) @ [Call c] \<and> failures env t (n1 @ n2) = [(c, e)]
            \<and> env (t @ (n1 @ pre)) c = Some e"
        using pc f n1 by simp
      then have "\<exists>pre' c'. n1 @ n2 = pre' @ [Call c'] \<and> failures env t (n1 @ n2) = [(c', e)]
            \<and> env (t @ pre') c' = Some e"
        by blast
      with tr Inl show ?thesis unfolding accounted_def k by (intro exI [of _ "n1 @ n2"]) simp
    qed
  qed
qed

section \<open>The files are only touched by the dispatcher\<close>

lemma and_then_files:
  "files (snd r) = fs \<Longrightarrow> (\<And>s. files s = fs \<Longrightarrow> files (snd (k s)) = fs) \<Longrightarrow> files (snd (and_then r k)) = fs"
  by (cases r) (auto simp: and_then_def split: sum.splits)

lemma except_timeout_files:
  "files (snd r) = fs \<Longrightarrow> (\<And>s. files s = fs \<Longrightarrow> files (snd (k s)) = fs) \<Longrightarrow>
   files (snd (except_timeout r k)) = fs"
  by (cases r) (auto simp: except_timeout_def split: sum.splits exn.splits)

lemma send_email_try_files: "files (snd (send_email_try env d st)) = files st"
  unfolding send_email_try_def Let_def
  by (rule and_then_files) (auto simp: run_files split: option.splits)

lemma send_email_files: "files (snd (send_email env d st)) = files st"
  using send_email_try_files [of env d st]
  by (cases "send_email_try env d st") (auto simp: send_email_def log_def split: sum.splits)

lemma authenticate_outlook_try_files:
  "files (snd (authenticate_outlook_try env config st)) = files st"
  unfolding authenticate_outlook_try_def
  by (intro and_then_files except_timeout_files) (simp_all add: run_files and_then_files except_timeout_files)

lemma parse_request_ok:
  "3 \<le> length lines \<Longrightarrow>
   parse_request lines =
     Inr \<lparr>recipient = strip (lines ! 0), subject = strip (lines ! 1), body_file = strip (lines ! 2)\<rparr>"
proof -
  assume "3 \<le> length lines"
  then have "index lines 0 = Inr (lines ! 0)" "index lines 1 = Inr (lines ! 1)"
    "index lines 2 = Inr (lines ! 2)"
    unfolding index_def by (simp_all del: One_nat_def) (auto intro: Suc_le_lessD)
  then show ?thesis by (simp add: parse_request_def)
qed

lemma parse_request_short: "length lines < 3 \<Longrightarrow> parse_request lines = Inl IndexError"
  by (simp add: parse_request_def index_def)

lemma poll_cycle_parsed:
  assumes "files st triggerFile = Some raw"
    and "parse_request (readlines raw) = Inr d"
    and "send_email env d (log (Log (''Notification file found: '' @ triggerFile)) st) = (sent, st2)"
  shows "poll_cycle env triggerFile st =
     (if sent then
        (case env (trace st2) (OsRemove triggerFile) of
           None \<Rightarrow>
             st2\<lparr>trace := trace st2 @ [Call (OsRemove triggerFile),
                                       Log (''Notification file processed and removed: '' @ triggerFile),
                                       Sleep 5],
                 files := (files st)(triggerFile := None)\<rparr>
         | Some e \<Rightarrow>
             st2\<lparr>trace := trace st2 @ [Call (OsRemove triggerFile),
                                       LogExn ''Error in listen_for_email_requests: '' e,
                                       Sleep 5]\<rparr>)
      else
        st2\<lparr>trace := trace st2 @ [Log (''Failed to send email. Notification file not removed: '' @ triggerFile), Sleep 5]\<rparr>)"
proof -
  have f2: "files st2 = files st"
    using send_email_files [of env d "log (Log (''Notification file found: '' @ triggerFile)) st"] assms(3)
    by (simp add: log_def)
  show ?thesis
    using assms f2
    by (simp add: poll_cycle_def poll_try_def os_remove_def and_then_def log_def Let_def
        split: option.splits)
qed

lemma poll_cycle_unparsed:
  assumes "files st triggerFile = Some raw"
    and "parse_request (readlines raw) = Inl e"
  shows "poll_cycle env triggerFile st =
     st\<lparr>trace := trace st @ [Log (''Notification file found: '' @ triggerFile),
                               LogExn ''Error in listen_for_email_requests: '' e, Sleep 5]\<rparr>"
  using assms by (simp add: poll_cycle_def poll_try_def log_def)

lemma poll_cycle_absent:
  "files st triggerFile = None \<Longrightarrow> poll_cycle env triggerFile st = st\<lparr>trace := trace st @ [Sleep 5]\<rparr>"
  by (simp add: poll_cycle_def poll_try_def log_def)

lemma poll_loop_absent:
  "files st triggerFile = None \<Longrightarrow>
   poll_loop n env triggerFile st = st\<lparr>trace := trace st @ replicate n (Sleep 5)\<rparr>"
proof (induction n arbitrary: st)
  case 0
  show ?case by simp
next
  case (Suc n)
  let ?st' = "st\<lparr>trace := trace st @ [Sleep 5]\<rparr>"
  have "files ?st' triggerFile = None" using Suc.prems by simp
  from Suc.IH [OF this] Suc.prems show ?case
    by (simp add: poll_cycle_absent replicate_append_same)
qed

section \<open>Strings\<close>

lemma split_comma_not_Nil: "split_comma s \<noteq> []"
  by (induction s) (auto split: list.splits)

lemma length_split_comma: "length (split_comma s) = Suc (count_list s CHR '','')"
  by (induction s) (auto split: list.splits simp: split_comma_not_Nil)

lemma strip_decomposition:
  "\<exists>lead trail. s = lead @ strip s @ trail \<and> list_all is_space lead \<and> list_all is_space trail
      \<and> (strip s = [] \<or> (\<not> is_space (hd (strip s)) \<and> \<not> is_space (last (strip s))))"
proof -
  let ?lead = "takeWhile is_space s"
  let ?m = "dropWhile is_space s"
  let ?trail = "rev (takeWhile is_space (rev ?m))"
  have s: "strip s = rev (dropWhile is_space (rev ?m))"
    by (simp add: strip_def lstrip_def rstrip_def)
  have "rev (dropWhile is_space (rev ?m)) @ ?trail
          = rev (takeWhile is_space (rev ?m) @ dropWhile is_space (rev ?m))"
    by (simp only: rev_append)
  also have "\<dots> = ?m" by simp
  finally have "rev (dropWhile is_space (rev ?m)) @ ?trail = ?m" .
  then have m: "?m = strip s @ ?trail" by (simp only: s)
  have a: "s = ?lead @ strip s @ ?trail" using m by (metis takeWhile_dropWhile_id)
  have b: "list_all is_space ?lead" by (simp add: list_all_iff) (meson set_takeWhileD)
  have c: "list_all is_space ?trail" by (simp add: list_all_iff) (meson set_takeWhileD)
  have d: "\<not> is_space (hd (strip s)) \<and> \<not> is_space (last (strip s))" if ne: "strip s \<noteq> []"
  proof -
    from ne s have ne': "dropWhile is_space (rev ?m) \<noteq> []" by simp
    have "last (strip s) = hd (dropWhile is_space (rev ?m))"
      using s ne' by (simp add: last_rev)
    then have l: "\<not> is_space (last (strip s))" using ne' hd_dropWhile by metis
    from m ne have "?m \<noteq> []" by (metis append_is_Nil_conv)
    then have "\<not> is_space (hd ?m)" by (rule hd_dropWhile)
    moreover have "hd ?m = hd (strip s)" using m ne by (metis hd_append2)
    ultimately show ?thesis using l by simp
  qed
  from a b c d show ?thesis by blast
qed

lemma example_lines:
  "readlines example_trigger =
     [''alice@example.com,bob@example.com'' @ [CHR 0x0A], ''Project update'' @ [CHR 0x0A],
      ''/tmp/body.txt'']"
  by (simp add: readlines_def example_trigger_def)

lemma example_strip:
  "strip ''alice@example.com,bob@example.com\<newline>'' = ''alice@example.com,bob@example.com''"
  "strip ''Project update\<newline>'' = ''Project update''"
  "strip ''/tmp/body.txt'' = ''/tmp/body.txt''"
  by (simp_all add: strip_def lstrip_def rstrip_def is_space_def)

lemma example_strip_addresses:
  "strip ''alice@example.com'' = ''alice@example.com''"
  "strip ''bob@example.com'' = ''bob@example.com''"
  "strip ''Project update'' = ''Project update''"
  "strip ''Hello team'' = ''Hello team''"
  by (simp_all add: strip_def lstrip_def rstrip_def is_space_def)


lemma join_split_comma: "join_comma (split_comma s) = s"
proof (induction s)
  case Nil
  show ?case by simp
next
  case (Cons c cs)
  obtain w ws where w: "split_comma cs = w # ws"
    using split_comma_not_Nil [of cs] by (cases "split_comma cs") auto
  show ?case
  proof (cases "c = CHR '',''")
    case True
    with Cons w show ?thesis by simp
  next
    case False
    with Cons w show ?thesis by (cases ws) simp_all
  qed
qed

lemma split_comma_no_comma: "list_all (\<lambda>r. CHR '','' \<notin> set r) (split_comma s)"
  by (induction s) (auto split: list.splits)

lemma spaced_split:
  "split_comma '' alice@example.com , bob@example.com''
     = ['' alice@example.com '', '' bob@example.com'']"
  by simp

lemma spaced_strip:
  "strip '' alice@example.com '' = ''alice@example.com''"
  "strip '' bob@example.com'' = ''bob@example.com''"
  by (simp_all add: strip_def lstrip_def rstrip_def is_space_def)

section \<open>The authentication sequence\<close>

lemma run_await_mailbox:
  assumes "run env await_mailbox s0 = (Inr u, s)"
  shows "trace s = trace s0 @ await_mailbox
         \<and> env (trace s0 @ [Log ''Waiting for the final page to load''])
               (WaitForSelector sel_new_mail (Some 60000)) = None"
  using assms
  by (auto simp: await_mailbox_def perform_def log_def split: option.splits)

lemma authenticate_outlook_try_Inr:
  assumes "authenticate_outlook_try env config st = (Inr u, s)"
  shows "\<exists>t. trace s = t @ await_mailbox
         \<and> env (t @ [Log ''Waiting for the final page to load''])
               (WaitForSelector sel_new_mail (Some 60000)) = None"
proof -
  from assms obtain s1 where
    "and_then
         (if username config \<noteq> [] then run env manual_handoff s1
          else
            and_then (run env (enter_password config) s1)
            (\<lambda>st2. except_timeout (run env stay_signed_in st2) (run env no_prompt)))
         (run env await_mailbox) = (Inr u, s)"
    unfolding authenticate_outlook_try_def by (blast dest: and_then_Inr)
  then obtain s4 where "run env await_mailbox s4 = (Inr u, s)"
    by (blast dest: and_then_Inr)
  from run_await_mailbox [OF this] show ?thesis by blast
qed

lemma run_stay_signed_in_timeout:
  assumes "env (trace st2) (WaitForSelector sel_stay_signed_in (Some 60000)) = Some PlaywrightTimeoutError"
  shows "run env stay_signed_in st2
         = (Inl PlaywrightTimeoutError, log (Call (WaitForSelector sel_stay_signed_in (Some 60000))) st2)"
  using assms by (simp add: stay_signed_in_def perform_def)

lemma handoff_try:
  "username config \<noteq> [] \<Longrightarrow>
   authenticate_outlook_try env config st
     = run env (enter_email config @ manual_handoff @ await_mailbox) st"
  by (simp add: authenticate_outlook_try_def and_then_run_run)

lemma handoff_script_no_password:
  "list_all (\<lambda>ev. \<not> on_password_field ev) (enter_email config @ manual_handoff @ await_mailbox)"
  by (simp add: enter_email_def manual_handoff_def await_mailbox_def on_password_field_def
      sel_email_def sel_submit_def sel_new_mail_def sel_password_def)

lemma handoff_script_one_submit:
  "count_list (enter_email config @ manual_handoff @ await_mailbox) (Call (Click sel_submit)) = 1"
  by (simp add: enter_email_def manual_handoff_def await_mailbox_def)

text \<open>
  When the set-up completes and the three release calls complete, \<open>authenticate\<close> releases
  the context, the browser and the driver once each, in this order, as its last events,
  whatever happens during the authentication.
\<close>

lemma authenticate_outlook_no_release:
  "\<exists>new. trace (snd (authenticate_outlook env config st)) = trace st @ new
         \<and> list_all (\<lambda>ev. \<not> is_release ev) new"
proof -
  let ?P = "\<lambda>ev. \<not> is_release ev"
  have b: "list_all ?P (enter_email config)" "list_all ?P manual_handoff"
    "list_all ?P (enter_password config)" "list_all ?P stay_signed_in" "list_all ?P no_prompt"
    "list_all ?P await_mailbox"
    by (simp_all add: enter_email_def manual_handoff_def enter_password_def stay_signed_in_def
        no_prompt_def await_mailbox_def is_release_def)
  have "\<exists>new. trace (snd (authenticate_outlook_try env config st)) = trace st @ new
         \<and> list_all ?P new"
    unfolding authenticate_outlook_try_def
    by (intro and_then_trace_all except_timeout_trace_all run_trace_all b)
       (auto intro!: and_then_trace_all except_timeout_trace_all run_trace_all b)
  then obtain new where n: "trace (snd (authenticate_outlook_try env config st)) = trace st @ new"
    "list_all ?P new" by blast
  obtain x s where xs: "authenticate_outlook_try env config st = (x, s)"
    by (cases "authenticate_outlook_try env config st")
  show ?thesis
  proof (cases x)
    case (Inr u)
    with xs n show ?thesis by (simp add: authenticate_outlook_def)
  next
    case (Inl e)
    with xs n have "trace (snd (authenticate_outlook env config st))
        = trace st @ (new @ [LogExn ''Error during authentication: '' e])
        \<and> list_all ?P (new @ [LogExn ''Error during authentication: '' e])"
      by (simp add: authenticate_outlook_def log_def is_release_def)
    then show ?thesis by blast
  qed
qed

lemma authenticate_releases_each_once:
  assumes "fst (run env start_browser st) = Inr ()"
    and "\<And>t. env t CloseContext = None"
    and "\<And>t. env t CloseBrowser = None"
    and "\<And>t. env t StopPlaywright = None"
  shows "\<exists>mid. fst (authenticate env options st) = Inr ()
           \<and> trace (snd (authenticate env options st))
               = trace st @ start_browser @ mid
                 @ [Call CloseContext, Call CloseBrowser, Call StopPlaywright]
           \<and> list_all (\<lambda>ev. \<not> is_release ev) mid"
proof -
  let ?P = "\<lambda>ev. \<not> is_release ev"
  let ?config = "\<lparr>email = auth_email options, password = auth_password options,
                  username = auth_username options, outlook_url = ''https://outlook.office.com''\<rparr>"
  define st1 where "st1 = snd (run env start_browser st)"
  have r1: "run env start_browser st = (Inr (), st1)"
    using assms(1) unfolding st1_def by (cases "run env start_browser st") simp
  have t1: "trace st1 = trace st @ start_browser"
    using run_trace_complete [OF assms(1)] by (simp add: st1_def)
  obtain b s2 where a: "authenticate_outlook env ?config st1 = (b, s2)"
    by (cases "authenticate_outlook env ?config st1")
  from authenticate_outlook_no_release [of env ?config st1] a obtain new where
    n: "trace s2 = trace st1 @ new" "list_all ?P new" by auto
  define msg where "msg = (if b
      then ''Authentication was successful. You can proceed with sending emails.''
      else ''Authentication failed. Please check your credentials and try again.'')"
  have c: "run env [Call CloseContext, Call CloseBrowser, Call StopPlaywright] s
      = (Inr (), s\<lparr>trace := trace s
            @ [Call CloseContext, Call CloseBrowser, Call StopPlaywright]\<rparr>)" for s
    using assms(2-4) by (simp add: perform_def log_def)
  have "authenticate env options st
      = (Inr (), (log (Log msg) s2)\<lparr>trace := trace (log (Log msg) s2)
            @ [Call CloseContext, Call CloseBrowser, Call StopPlaywright]\<rparr>)"
    using r1 a
    by (cases b)
       (simp_all add: authenticate_def OutlookConfig_init_def setup_browser_def msg_def c Let_def
          del: run.simps)
  then have "fst (authenticate env options st) = Inr ()
       \<and> trace (snd (authenticate env options st))
           = trace st @ start_browser @ (new @ [Log msg])
             @ [Call CloseContext, Call CloseBrowser, Call StopPlaywright]
       \<and> list_all ?P (new @ [Log msg])"
    using t1 n by (simp add: log_def is_release_def)
  then show ?thesis by blast
qed

lemma accounted_prompt:
  "accounted env (trace st) (except_timeout (run env stay_signed_in st) (run env no_prompt))"
proof -
  let ?r = "run env stay_signed_in st"
  from run_raised [of env stay_signed_in st] obtain new where
    n: "trace (snd ?r) = trace st @ new"
    and c: "(case fst ?r of
          Inr u \<Rightarrow> new = stay_signed_in \<and> raised env (trace st) new = []
        | Inl e \<Rightarrow> (\<exists>pre c. new = pre @ [Call c] \<and> Call c \<in> set stay_signed_in
                       \<and> raised env (trace st) new = [(c, e)]
                       \<and> env (trace st @ pre) c = Some e))"
    by blast
  obtain x s where xs: "?r = (x, s)" by (cases ?r)
  show ?thesis
  proof (cases x)
    case (Inr u)
    with xs have "except_timeout ?r (run env no_prompt) = ?r" by (simp add: except_timeout_def)
    moreover from c xs Inr have "failures env (trace st) new = []" by (auto simp: failures_def)
    ultimately show ?thesis using n xs Inr unfolding accounted_def
      by (intro exI [of _ new]) simp
  next
    case (Inl e)
    with c xs obtain pre c' where pc: "new = pre @ [Call c']" "Call c' \<in> set stay_signed_in"
      "raised env (trace st) new = [(c', e)]" "env (trace st @ pre) c' = Some e"
      by auto
    from pc(2) have c': "c' = WaitForSelector sel_stay_signed_in (Some 60000)
                         \<or> c' = Click sel_stay_signed_in"
      by (auto simp: stay_signed_in_def)
    show ?thesis
    proof (cases "e = PlaywrightTimeoutError")
      case True
      with c' have "prompt_timeout (c', e)" by (simp add: prompt_timeout_def)
      with pc(3) have f: "failures env (trace st) new = []" by (simp add: failures_def)
      have h: "except_timeout ?r (run env no_prompt) = run env no_prompt s"
        using xs Inl True by (simp add: except_timeout_def)
      have l: "run env no_prompt s = (Inr (), s\<lparr>trace := trace s @ no_prompt\<rparr>)"
        by (simp add: no_prompt_def perform_def log_def)
      have "failures env (trace st) (new @ no_prompt) = []"
        using f by (simp add: failures_append) (simp add: failures_def no_prompt_def)
      with n xs h l show ?thesis unfolding accounted_def
        by (intro exI [of _ "new @ no_prompt"]) simp
    next
      case False
      then have "\<not> prompt_timeout (c', e)" by (simp add: prompt_timeout_def)
      with pc(3) have f: "failures env (trace st) new = [(c', e)]" by (simp add: failures_def)
      have h: "except_timeout ?r (run env no_prompt) = ?r"
        using xs Inl False by (cases e) (simp_all add: except_timeout_def)
      from pc f have "\<exists>pre c. new = pre @ [Call c] \<and> failures env (trace st) new = [(c, e)]
                          \<and> env (trace st @ pre) c = Some e"
        by blast
      with n xs Inl h show ?thesis unfolding accounted_def by (intro exI [of _ new]) simp
    qed
  qed
qed

lemma accounted_try: "accounted env (trace st) (authenticate_outlook_try env config st)"
proof -
  have e: "\<not> prompt_timeout (c, x)" if "Call c \<in> set (enter_email config)" for c x
    using that by (auto simp: enter_email_def prompt_timeout_def sel_submit_def
        sel_stay_signed_in_def)
  have m: "\<not> prompt_timeout (c, x)" if "Call c \<in> set manual_handoff" for c x
    using that by (auto simp: manual_handoff_def)
  have p: "\<not> prompt_timeout (c, x)" if "Call c \<in> set (enter_password config)" for c x
    using that by (auto simp: enter_password_def prompt_timeout_def sel_submit_def
        sel_password_def sel_stay_signed_in_def)
  have a: "\<not> prompt_timeout (c, x)" if "Call c \<in> set await_mailbox" for c x
    using that by (auto simp: await_mailbox_def prompt_timeout_def sel_new_mail_def
        sel_stay_signed_in_def)
  show ?thesis
    unfolding authenticate_outlook_try_def
    by (intro accounted_and_then accounted_run accounted_prompt e m p a
          if_split [where P = "accounted env (trace s)" for s, THEN iffD2] conjI impI)
       (auto intro!: accounted_and_then accounted_run accounted_prompt dest: e m p a)
qed

section \<open>The compose step\<close>

lemma fill_recipients_keystrokes:
  "rs \<noteq> [] \<Longrightarrow> n = i + length rs \<Longrightarrow>
   fill_recipients n i rs = recipient_keystrokes (map strip rs)"
proof (induction rs arbitrary: i)
  case Nil
  then show ?case by simp
next
  case (Cons r rest)
  show ?case
  proof (cases rest)
    case Nil
    with Cons.prems show ?thesis by (simp add: recipient_keystrokes_def)
  next
    case (Cons r' rest')
    then have ne: "rest \<noteq> []" by simp
    have n: "n = Suc i + length rest" using Cons.prems by simp
    from Cons.IH [OF ne n] Cons.prems ne show ?thesis
      by (simp add: recipient_keystrokes_def)
  qed
qed

lemma filter_recipient_keystrokes:
  "as \<noteq> [] \<Longrightarrow> filter is_recipient_fill (recipient_keystrokes as) = map (\<lambda>a. Call (Fill sel_to a)) as"
proof (induction as)
  case Nil
  then show ?case by simp
next
  case (Cons a as)
  show ?case
  proof (cases as)
    case Nil
    then show ?thesis by (simp add: recipient_keystrokes_def is_recipient_fill_def)
  next
    case (Cons b bs)
    then have "as \<noteq> []" by simp
    from Cons.IH [OF this] this show ?thesis
      by (simp add: recipient_keystrokes_def is_recipient_fill_def)
  qed
qed

text \<open>What \<open>send_email\<close> does from the subject on, whatever the browser answers.\<close>

lemma compose_rest_trace:
  "\<exists>rest. trace (snd (and_then (run env (compose_subject d) s)
                         (\<lambda>st1. case files st1 (body_file d) of
                                  None \<Rightarrow> (Inl (FileNotFoundError (body_file d)), st1)
                                | Some raw \<Rightarrow> run env (compose_body d (strip (read_text raw))) st1)))
            = trace s @ Call (Fill sel_subject (strip (subject d))) # rest
          \<and> list_all (\<lambda>ev. \<not> is_recipient_fill ev) rest"
proof -
  let ?P = "\<lambda>ev. \<not> is_recipient_fill ev"
  let ?K = "\<lambda>st1. case files st1 (body_file d) of
                                  None \<Rightarrow> (Inl (FileNotFoundError (body_file d)), st1)
                                | Some raw \<Rightarrow> run env (compose_body d (strip (read_text raw))) st1"
  let ?ev = "Call (Fill sel_subject (strip (subject d)))"
  let ?evs = "[Call (KeyboardPress ''Tab''), Log ''Adding email body'']"
  have K: "\<exists>new. trace (snd (?K s')) = trace s' @ new \<and> list_all ?P new" for s'
  proof (cases "files s' (body_file d)")
    case None
    then show ?thesis by simp
  next
    case (Some raw)
    have "list_all ?P (compose_body d (strip (read_text raw)))"
      by (simp add: compose_body_def is_recipient_fill_def)
    from run_trace_all [OF this, of env s'] Some show ?thesis by simp
  qed
  obtain x s' where p: "perform env ?ev s = (x, s')" by (cases "perform env ?ev s")
  have t: "trace s' = trace s @ [?ev]" using perform_trace [of env ?ev s] p by simp
  show ?thesis
  proof (cases x)
    case (Inl e)
    with p t show ?thesis by (simp add: compose_subject_def and_then_def)
  next
    case (Inr u)
    have "list_all ?P ?evs" by (simp add: is_recipient_fill_def)
    from and_then_trace_all [of "run env ?evs s'" s' ?P ?K, OF run_trace_all [OF this] K]
    obtain new where "trace (snd (and_then (run env ?evs s') ?K)) = trace s' @ new" "list_all ?P new"
      by blast
    with p t Inr show ?thesis by (simp add: compose_subject_def)
  qed
qed

lemma example_send_succeeds:
  "fst (send_email always_ok
          \<lparr>recipient = ''alice@example.com,bob@example.com'', subject = ''Project update'',
           body_file = ''/tmp/body.txt''\<rparr>
          (log (Log ''Notification file found: /tmp/notification.txt'') example_state))"
  by (simp add: send_email_def send_email_try_def compose_open_def compose_subject_def
      compose_body_def and_then_def perform_def log_def always_ok_def example_state_def)

section \<open>The claims\<close>

text \<open>
  C1, as amended. When the trigger file holds at least three lines, a pass of the
  dispatcher parses them into a request and deletes the trigger file if and only if
  \<open>send_email\<close> returns \<open>True\<close> and \<open>os.remove\<close> completes; when \<open>send_email\<close> returns \<open>False\<close>,
  or the removal raises, every file, the trigger file included, is as it was. Whether the
  body file can be read only decides what \<open>send_email\<close> returns.
\<close>

theorem trigger_file_deleted_iff_sent_and_removed:
  assumes "files st triggerFile = Some raw" and "3 \<le> length (readlines raw)"
  shows "let lines = readlines raw;
             email_details = \<lparr>recipient = strip (lines ! 0), subject = strip (lines ! 1),
                               body_file = strip (lines ! 2)\<rparr>;
             sent = send_email env email_details
                      (log (Log (''Notification file found: '' @ triggerFile)) st);
             removed = (env (trace (snd sent)) (OsRemove triggerFile) = None)
         in parse_request lines = Inr email_details
            \<and> (files (poll_cycle env triggerFile st) triggerFile = None) = (fst sent \<and> removed)
            \<and> files (poll_cycle env triggerFile st)
                = (if fst sent \<and> removed then (files st)(triggerFile := None) else files st)"
proof -
  let ?d = "\<lparr>recipient = strip (readlines raw ! 0), subject = strip (readlines raw ! 1),
             body_file = strip (readlines raw ! 2)\<rparr>"
  let ?st1 = "log (Log (''Notification file found: '' @ triggerFile)) st"
  obtain sent st2 where s: "send_email env ?d ?st1 = (sent, st2)"
    by (cases "send_email env ?d ?st1")
  have p: "parse_request (readlines raw) = Inr ?d"
    using assms(2) by (rule parse_request_ok)
  have f2: "files st2 = files st"
    using send_email_files [of env ?d ?st1] s by (simp add: log_def)
  have c: "files (poll_cycle env triggerFile st)
           = (if sent \<and> env (trace st2) (OsRemove triggerFile) = None
              then (files st)(triggerFile := None) else files st)"
    using poll_cycle_parsed [OF assms(1) p s] f2 by (simp split: option.splits)
  show ?thesis
    unfolding Let_def using p c s assms(1) by simp
qed

theorem trigger_file_deleted_iff_sent_and_removed_witness:
  "files example_state ''/tmp/notification.txt'' = Some example_trigger
   \<and> 3 \<le> length (readlines example_trigger)
   \<and> fst (send_email always_ok example_details
            (log (Log ''Notification file found: /tmp/notification.txt'') example_state))
   \<and> files (poll_cycle always_ok ''/tmp/notification.txt'' example_state)
         ''/tmp/notification.txt'' = None
   \<and> files (poll_cycle always_ok ''/tmp/notification.txt'' example_state) ''/tmp/body.txt''
       = Some ''Hello team''"
proof -
  have h1: "files example_state ''/tmp/notification.txt'' = Some example_trigger"
    by (simp add: example_state_def)
  have h2: "3 \<le> length (readlines example_trigger)"
    by (simp add: example_lines)
  have sent: "fst (send_email always_ok example_details
            (log (Log ''Notification file found: /tmp/notification.txt'') example_state))"
    using example_send_succeeds by (simp add: example_details_def)
  have removed: "always_ok t (OsRemove ''/tmp/notification.txt'') = None" for t
    by (simp add: always_ok_def)
  from trigger_file_deleted_iff_sent_and_removed [OF h1 h2, of always_ok] example_strip sent removed
  have "files (poll_cycle always_ok ''/tmp/notification.txt'' example_state)
        = (files example_state)(''/tmp/notification.txt'' := None)"
    by (simp add: Let_def example_lines example_details_def)
  then have "files (poll_cycle always_ok ''/tmp/notification.txt'' example_state)
         ''/tmp/notification.txt'' = None
     \<and> files (poll_cycle always_ok ''/tmp/notification.txt'' example_state) ''/tmp/body.txt''
       = Some ''Hello team''"
    by (simp add: example_state_def)
  with h1 h2 sent show ?thesis by simp
qed

text \<open>
  C1 as stated fails: here the request is sent (\<open>send_email\<close> returns \<open>True\<close>), the operating
  system refuses the removal, the loop's \<open>except\<close> logs the \<open>PermissionError\<close>, and the trigger
  file is still there, unchanged, for the next pass.
\<close>

theorem trigger_file_kept_after_send_counterexample:
  "files example_state ''/tmp/notification.txt'' = Some example_trigger
   \<and> 3 \<le> length (readlines example_trigger)
   \<and> files example_state ''/tmp/body.txt'' = Some ''Hello team''
   \<and> fst (send_email remove_denied example_details
            (log (Log ''Notification file found: /tmp/notification.txt'') example_state))
   \<and> files (poll_cycle remove_denied ''/tmp/notification.txt'' example_state)
         ''/tmp/notification.txt'' = Some example_trigger
   \<and> last (butlast (trace (poll_cycle remove_denied ''/tmp/notification.txt'' example_state)))
       = LogExn ''Error in listen_for_email_requests: '' (PermissionError ''/tmp/notification.txt'')"
proof -
  let ?st1 = "log (Log (''Notification file found: '' @ ''/tmp/notification.txt'')) example_state"
  have h1: "files example_state ''/tmp/notification.txt'' = Some example_trigger"
    by (simp add: example_state_def)
  have h2: "3 \<le> length (readlines example_trigger)"
    by (simp add: example_lines)
  have h3: "files example_state ''/tmp/body.txt'' = Some ''Hello team''"
    by (simp add: example_state_def)
  have p: "parse_request (readlines example_trigger) = Inr example_details"
    by (simp add: example_lines parse_request_def index_def example_strip example_details_def)
  obtain sent st2 where s: "send_email remove_denied example_details ?st1 = (sent, st2)"
    by (cases "send_email remove_denied example_details ?st1")
  have sent: "fst (send_email remove_denied example_details ?st1)"
    by (simp add: send_email_def send_email_try_def compose_open_def compose_subject_def
        compose_body_def and_then_def perform_def log_def remove_denied_def example_state_def
        example_details_def)
  have denied: "remove_denied (trace st2) (OsRemove ''/tmp/notification.txt'')
                = Some (PermissionError ''/tmp/notification.txt'')"
    by (simp add: remove_denied_def)
  from poll_cycle_parsed [OF h1 p s] sent s denied
  have c: "poll_cycle remove_denied ''/tmp/notification.txt'' example_state
        = st2\<lparr>trace := trace st2 @ [Call (OsRemove ''/tmp/notification.txt''),
               LogExn ''Error in listen_for_email_requests: ''
                 (PermissionError ''/tmp/notification.txt''),
               Sleep 5]\<rparr>"
    by simp
  have f2: "files st2 = files example_state"
    using send_email_files [of remove_denied example_details ?st1] s by (simp add: log_def)
  have k: "files (poll_cycle remove_denied ''/tmp/notification.txt'' example_state)
         ''/tmp/notification.txt'' = Some example_trigger"
    using c f2 h1 by simp
  have l: "last (butlast (trace (poll_cycle remove_denied ''/tmp/notification.txt'' example_state)))
       = LogExn ''Error in listen_for_email_requests: '' (PermissionError ''/tmp/notification.txt'')"
    unfolding c by (simp add: butlast_append)
  from h1 h2 h3 sent k l show ?thesis by simp
qed

text \<open>
  C2. \<open>async_main\<close> builds the configuration from the email and the password alone, and
  \<open>username\<close> has no default, so whatever options \<open>send_argparse\<close> returned and whatever
  the number of passes observed, the browser and the files, the
  construction raises \<open>TypeError\<close> for the missing \<open>username\<close>; no browser call, log line or
  poll has happened when it does.
\<close>

theorem async_main_raises_missing_username:
  "async_main n env options st = (Raised (TypeError [''username'']), st)"
  by (simp add: async_main_def OutlookConfig_init_def)

text \<open>
  C3. When the trigger file holds fewer than three lines, parsing raises \<open>IndexError\<close>; the
  pass logs it and sleeps, makes no browser call, leaves every file as it was, and the
  loop goes on with its next pass.
\<close>

theorem short_trigger_file_is_kept:
  assumes "files st triggerFile = Some raw" and "length (readlines raw) < 3"
  shows "parse_request (readlines raw) = Inl IndexError
         \<and> poll_cycle env triggerFile st =
             st\<lparr>trace := trace st @ [Log (''Notification file found: '' @ triggerFile),
                                       LogExn ''Error in listen_for_email_requests: '' IndexError,
                                       Sleep 5]\<rparr>
         \<and> poll_loop (Suc n) env triggerFile st =
             poll_loop n env triggerFile
               (st\<lparr>trace := trace st @ [Log (''Notification file found: '' @ triggerFile),
                                          LogExn ''Error in listen_for_email_requests: '' IndexError,
                                          Sleep 5]\<rparr>)"
proof -
  have p: "parse_request (readlines raw) = Inl IndexError"
    using assms(2) by (rule parse_request_short)
  from poll_cycle_unparsed [OF assms(1) p] p show ?thesis by simp
qed

theorem short_trigger_file_is_kept_witness:
  "files \<lparr>trace = [], files = [''/tmp/notification.txt'' \<mapsto> ''alice@example.com\<newline>Project update'']\<rparr>
     ''/tmp/notification.txt'' = Some ''alice@example.com\<newline>Project update''
   \<and> length (readlines ''alice@example.com\<newline>Project update'') < 3
   \<and> poll_cycle always_ok ''/tmp/notification.txt''
        \<lparr>trace = [], files = [''/tmp/notification.txt'' \<mapsto> ''alice@example.com\<newline>Project update'']\<rparr>
      = \<lparr>trace = [Log ''Notification file found: /tmp/notification.txt'',
                  LogExn ''Error in listen_for_email_requests: '' IndexError,
                  Sleep 5],
         files = [''/tmp/notification.txt'' \<mapsto> ''alice@example.com\<newline>Project update'']\<rparr>"
proof -
  let ?st = "\<lparr>trace = [], files = [''/tmp/notification.txt'' \<mapsto> ''alice@example.com\<newline>Project update'']\<rparr>"
  have h1: "files ?st ''/tmp/notification.txt'' = Some ''alice@example.com\<newline>Project update''"
    by simp
  have h2: "length (readlines ''alice@example.com\<newline>Project update'') < 3"
    by (simp add: readlines_def)
  show ?thesis
    using h1 h2 short_trigger_file_is_kept [OF h1 h2, of always_ok 0] by simp
qed

text \<open>
  C4, as amended. Let the recipient line split at its commas into \<open>N\<close> fields (one more
  than it has commas; joined by commas they give the line back, and none holds a comma),
  and let the calls of \<open>send_email\<close> up to the end of the recipient loop complete. Then the
  recipient field is filled exactly \<open>N\<close> times, once per field in order, each with the
  whitespace at both ends removed (the field is some whitespace, the text filled, some
  whitespace, and the text filled neither starts nor ends with whitespace); the events of
  the loop are the keystrokes of \<open>recipient_keystrokes\<close> (a comma and a space after each of
  the first \<open>N - 1\<close> fills); and the \<open>N\<close>th fill is followed by the fill of the subject.
\<close>

theorem recipient_fills_when_calls_complete:
  assumes "recipients = split_comma (recipient email_details)"
    and "fst (run env (compose_open @ fill_recipients (length recipients) 0 recipients) st) = Inr ()"
  shows "length recipients = Suc (count_list (recipient email_details) CHR '','')
         \<and> join_comma recipients = recipient email_details
         \<and> list_all (\<lambda>r. CHR '','' \<notin> set r) recipients
         \<and> list_all (\<lambda>r. \<exists>lead trail. r = lead @ strip r @ trail
                          \<and> list_all is_space lead \<and> list_all is_space trail
                          \<and> (strip r = []
                             \<or> (\<not> is_space (hd (strip r)) \<and> \<not> is_space (last (strip r)))))
              recipients
         \<and> filter is_recipient_fill
              (drop (length (trace st)) (trace (snd (send_email env email_details st))))
            = map (\<lambda>r. Call (Fill sel_to (strip r))) recipients
         \<and> (\<exists>rest. trace (snd (send_email env email_details st))
                     = trace st @ compose_open
                       @ recipient_keystrokes (map strip recipients)
                       @ Call (Fill sel_subject (strip (subject email_details))) # rest
                   \<and> list_all (\<lambda>ev. \<not> is_recipient_fill ev) rest)"
proof -
  let ?P = "\<lambda>ev. \<not> is_recipient_fill ev"
  let ?loop = "fill_recipients (length recipients) 0 recipients"
  let ?keys = "recipient_keystrokes (map strip recipients)"
  let ?K = "\<lambda>st1. case files st1 (body_file email_details) of
                    None \<Rightarrow> (Inl (FileNotFoundError (body_file email_details)), st1)
                  | Some raw \<Rightarrow> run env (compose_body email_details (strip (read_text raw))) st1"
  have ne: "recipients \<noteq> []" using assms(1) by (simp add: split_comma_not_Nil)
  have loop: "?loop = ?keys"
    using ne by (intro fill_recipients_keystrokes) simp_all
  define st1 where "st1 = snd (run env (compose_open @ ?loop) st)"
  have r1: "run env (compose_open @ ?loop) st = (Inr (), st1)"
    using assms(2) unfolding st1_def by (cases "run env (compose_open @ ?loop) st") simp
  have t1: "trace st1 = trace st @ compose_open @ ?keys"
    using run_trace_complete [OF assms(2)] loop by (simp add: st1_def)
  have "run env (compose_open @ ?loop @ compose_subject email_details) st
          = run env (compose_subject email_details) st1"
    using run_append [of env "compose_open @ ?loop" "compose_subject email_details" st] r1
    by (simp add: and_then_def)
  then have tried: "send_email_try env email_details st
          = and_then (run env (compose_subject email_details) st1) ?K"
    using assms(1) by (simp add: send_email_try_def)
  from compose_rest_trace [of env email_details st1] obtain rest where
    rest: "trace (snd (and_then (run env (compose_subject email_details) st1) ?K))
            = trace st1 @ Call (Fill sel_subject (strip (subject email_details))) # rest"
      "list_all ?P rest"
    by blast
  obtain x s where xs: "send_email_try env email_details st = (x, s)"
    by (cases "send_email_try env email_details st")
  define rest' where "rest' = (case x of Inr u \<Rightarrow> rest
                                | Inl e \<Rightarrow> rest @ [LogExn ''Error sending email: '' e])"
  have tr: "trace (snd (send_email env email_details st))
              = trace st @ compose_open @ ?keys
                @ Call (Fill sel_subject (strip (subject email_details))) # rest'"
    using xs tried rest(1) t1
    by (cases x) (simp_all add: send_email_def log_def rest'_def)
  have pr: "list_all ?P rest'"
    using rest(2) by (cases x) (simp_all add: rest'_def is_recipient_fill_def)
  have f1: "filter is_recipient_fill compose_open = []"
    by (simp add: compose_open_def is_recipient_fill_def)
  have f2: "filter is_recipient_fill ?keys = map (\<lambda>r. Call (Fill sel_to (strip r))) recipients"
    using filter_recipient_keystrokes [of "map strip recipients"] ne by (simp add: comp_def)
  have f3: "\<not> is_recipient_fill (Call (Fill sel_subject (strip (subject email_details))))"
    by (simp add: is_recipient_fill_def sel_subject_def sel_to_def)
  have f4: "filter is_recipient_fill rest' = []"
    using pr by (simp add: list_all_iff filter_empty_conv)
  have cnt: "filter is_recipient_fill
              (drop (length (trace st)) (trace (snd (send_email env email_details st))))
            = map (\<lambda>r. Call (Fill sel_to (strip r))) recipients"
    using tr f1 f2 f3 f4 by simp
  have len: "length recipients = Suc (count_list (recipient email_details) CHR '','')"
    using assms(1) by (simp add: length_split_comma)
  have jn: "join_comma recipients = recipient email_details"
    using assms(1) by (simp add: join_split_comma)
  have nc: "list_all (\<lambda>r. CHR '','' \<notin> set r) recipients"
    using assms(1) by (simp add: split_comma_no_comma)
  have sd: "list_all (\<lambda>r. \<exists>lead trail. r = lead @ strip r @ trail
                          \<and> list_all is_space lead \<and> list_all is_space trail
                          \<and> (strip r = []
                             \<or> (\<not> is_space (hd (strip r)) \<and> \<not> is_space (last (strip r)))))
              recipients"
    by (rule list_all_always) (rule strip_decomposition)
  from tr pr have ex: "\<exists>rest. trace (snd (send_email env email_details st))
                     = trace st @ compose_open
                       @ recipient_keystrokes (map strip recipients)
                       @ Call (Fill sel_subject (strip (subject email_details))) # rest
                   \<and> list_all (\<lambda>ev. \<not> is_recipient_fill ev) rest"
    by blast
  show ?thesis
    by (rule conjI [OF len conjI [OF jn conjI [OF nc conjI [OF sd conjI [OF cnt ex]]]]])
qed

theorem recipient_fills_when_calls_complete_witness:
  "['' alice@example.com '', '' bob@example.com''] = split_comma (recipient spaced_details)
   \<and> fst (run always_ok
            (compose_open
             @ fill_recipients (length ['' alice@example.com '', '' bob@example.com'']) 0
                 ['' alice@example.com '', '' bob@example.com''])
            example_state) = Inr ()
   \<and> filter is_recipient_fill
        (drop (length (trace example_state))
           (trace (snd (send_email always_ok spaced_details example_state))))
      = [Call (Fill sel_to ''alice@example.com''), Call (Fill sel_to ''bob@example.com'')]
   \<and> recipient_keystrokes (map strip ['' alice@example.com '', '' bob@example.com''])
      = [Call (Fill sel_to ''alice@example.com''), Call (KeyboardType '',''),
         Call (KeyboardPress ''Space''), Call (Fill sel_to ''bob@example.com'')]"
proof -
  let ?rs = "['' alice@example.com '', '' bob@example.com'']"
  have h1: "?rs = split_comma (recipient spaced_details)"
    by (simp add: spaced_details_def)
  have h2: "fst (run always_ok (compose_open @ fill_recipients (length ?rs) 0 ?rs) example_state)
            = Inr ()"
    by (simp add: compose_open_def perform_def log_def always_ok_def)
  have k: "recipient_keystrokes (map strip ?rs)
      = [Call (Fill sel_to ''alice@example.com''), Call (KeyboardType '',''),
         Call (KeyboardPress ''Space''), Call (Fill sel_to ''bob@example.com'')]"
    by (simp add: recipient_keystrokes_def spaced_strip)
  from recipient_fills_when_calls_complete [OF h1 h2]
  have "filter is_recipient_fill
        (drop (length (trace example_state))
           (trace (snd (send_email always_ok spaced_details example_state))))
      = map (\<lambda>r. Call (Fill sel_to (strip r))) ?rs"
    by (elim conjE)
  then have c: "filter is_recipient_fill
        (drop (length (trace example_state))
           (trace (snd (send_email always_ok spaced_details example_state))))
      = [Call (Fill sel_to ''alice@example.com''), Call (Fill sel_to ''bob@example.com'')]"
    by (simp add: spaced_strip)
  show ?thesis by (rule conjI [OF h1 conjI [OF h2 conjI [OF c k]]])
qed

text \<open>
  C4 as stated fails: the line names two addresses, the fill of the first raises, and
  \<open>send_email\<close> logs the error and returns \<open>False\<close> after one fill.
\<close>

theorem recipient_fill_raises_counterexample:
  "split_comma (recipient example_details) = [''alice@example.com'', ''bob@example.com'']
   \<and> send_email first_fill_raises example_details example_state
       = (False,
          \<lparr>trace = compose_open
                    @ [Call (Fill sel_to ''alice@example.com''),
                       LogExn ''Error sending email: '' (Error ''fill failed'')],
            files = files example_state\<rparr>)
   \<and> filter is_recipient_fill
        (compose_open
         @ [Call (Fill sel_to ''alice@example.com''),
            LogExn ''Error sending email: '' (Error ''fill failed'')])
      = [Call (Fill sel_to ''alice@example.com'')]"
proof -
  have a: "split_comma (recipient example_details) = [''alice@example.com'', ''bob@example.com'']"
    by (simp add: example_details_def)
  have b: "send_email first_fill_raises example_details example_state
       = (False,
          \<lparr>trace = compose_open
                    @ [Call (Fill sel_to ''alice@example.com''),
                       LogExn ''Error sending email: '' (Error ''fill failed'')],
            files = files example_state\<rparr>)"
    by (simp add: send_email_def send_email_try_def example_details_def example_state_def
        compose_open_def and_then_def perform_def log_def first_fill_raises_def
        example_strip_addresses)
  have c: "filter is_recipient_fill
        (compose_open
         @ [Call (Fill sel_to ''alice@example.com''),
            LogExn ''Error sending email: '' (Error ''fill failed'')])
      = [Call (Fill sel_to ''alice@example.com'')]"
    by (simp add: compose_open_def is_recipient_fill_def)
  show ?thesis by (rule conjI [OF a conjI [OF b c]])
qed

text \<open>
  C5. With a non-empty username, whatever the browser answers, the events of
  \<open>authenticate_outlook\<close> are an initial part of the email form, the hand-off message and
  the wait for the mailbox (with the logged exception after it when a call raised): no
  event is on the password field, the submit button is clicked at most once (after the
  email), and when the email form completes the hand-off message is followed at once by
  the wait for the mailbox.
\<close>

theorem manual_handoff_skips_password:
  assumes "username config \<noteq> []"
  shows "\<exists>evs k.
           trace (snd (authenticate_outlook env config st)) = trace st @ evs
           \<and> (evs = take k (enter_email config @ manual_handoff @ await_mailbox)
              \<or> (\<exists>e. evs = take k (enter_email config @ manual_handoff @ await_mailbox)
                           @ [LogExn ''Error during authentication: '' e]))
           \<and> list_all (\<lambda>ev. \<not> on_password_field ev) evs
           \<and> count_list evs (Call (Click sel_submit)) \<le> 1
           \<and> (if fst (run env (enter_email config) st) = Inr () then
                take 9 evs = enter_email config @ manual_handoff
                             @ [Log ''Waiting for the final page to load'',
                                Call (WaitForSelector sel_new_mail (Some 60000))]
              else True)"
proof -
  let ?script = "enter_email config @ manual_handoff @ await_mailbox"
  obtain r s where t: "authenticate_outlook_try env config st = (r, s)"
    by (cases "authenticate_outlook_try env config st")
  from run_trace_prefix [of ?script env st] obtain k where
    k: "trace (snd (run env ?script st)) = trace st @ take k ?script" by blast
  with t handoff_try [OF assms, of env st]
  have s: "trace s = trace st @ take k ?script" by simp
  define evs where "evs = (case r of Inr u \<Rightarrow> take k ?script
                           | Inl e \<Rightarrow> take k ?script @ [LogExn ''Error during authentication: '' e])"
  have a: "trace (snd (authenticate_outlook env config st)) = trace st @ evs"
    using t s by (cases r) (simp_all add: authenticate_outlook_def log_def evs_def)
  have b: "evs = take k ?script
           \<or> (\<exists>e. evs = take k ?script @ [LogExn ''Error during authentication: '' e])"
    by (cases r) (simp_all add: evs_def)
  have c: "list_all (\<lambda>ev. \<not> on_password_field ev) evs"
    using list_all_take [OF handoff_script_no_password, of k config]
    by (cases r) (simp_all add: evs_def on_password_field_def)
  have d: "count_list evs (Call (Click sel_submit)) \<le> 1"
    using count_list_take [of k ?script "Call (Click sel_submit)"]
      handoff_script_one_submit [of config]
    by (cases r) (simp_all add: evs_def)
  have e: "take 9 evs = enter_email config @ manual_handoff
                             @ [Log ''Waiting for the final page to load'',
                                Call (WaitForSelector sel_new_mail (Some 60000))]"
    if "fst (run env (enter_email config) st) = Inr ()"
  proof -
    have e1: "run env (enter_email config) st = (Inr (), snd (run env (enter_email config) st))"
      using that by (cases "run env (enter_email config) st") simp
    define st1 where "st1 = snd (run env (enter_email config) st)"
    note e1 = e1 [folded st1_def]
    from run_trace_complete [of env "enter_email config" st "()"] that e1
    have t1: "trace st1 = trace st @ enter_email config" by simp
    have "authenticate_outlook_try env config st = run env (manual_handoff @ await_mailbox) st1"
      using assms e1 by (simp add: authenticate_outlook_try_def and_then_def run_append)
    then have "trace (snd (authenticate_outlook env config st))
          = trace st @ enter_email config @ manual_handoff
             @ [Log ''Waiting for the final page to load'',
                Call (WaitForSelector sel_new_mail (Some 60000))]
             @ (case env (trace st1 @ manual_handoff @ [Log ''Waiting for the final page to load''])
                       (WaitForSelector sel_new_mail (Some 60000)) of
                  None \<Rightarrow> [Log ''Authenticated successfully.'']
                | Some x \<Rightarrow> [LogExn ''Error during authentication: '' x])"
      using t1
      by (simp add: authenticate_outlook_def manual_handoff_def await_mailbox_def perform_def
          log_def split: option.splits)
    with a have "evs = enter_email config @ manual_handoff
             @ [Log ''Waiting for the final page to load'',
                Call (WaitForSelector sel_new_mail (Some 60000))]
             @ (case env (trace st1 @ manual_handoff @ [Log ''Waiting for the final page to load''])
                       (WaitForSelector sel_new_mail (Some 60000)) of
                  None \<Rightarrow> [Log ''Authenticated successfully.'']
                | Some x \<Rightarrow> [LogExn ''Error during authentication: '' x])"
      by simp
    then show ?thesis
      by (simp add: enter_email_def manual_handoff_def)
  qed
  from a b c d e show ?thesis by (intro exI [of _ evs] exI [of _ k]) simp
qed

theorem manual_handoff_skips_password_witness:
  "username handoff_config \<noteq> []
   \<and> (\<exists>evs. trace (snd (authenticate_outlook always_ok handoff_config
                          \<lparr>trace = [], files = Map.empty\<rparr>)) = evs
            \<and> list_all (\<lambda>ev. \<not> on_password_field ev) evs
            \<and> count_list evs (Call (Click sel_submit)) \<le> 1)"
proof -
  have h: "username handoff_config \<noteq> []" by (simp add: handoff_config_def)
  from manual_handoff_skips_password [OF h, of always_ok "\<lparr>trace = [], files = Map.empty\<rparr>"]
  show ?thesis using h by auto
qed




text \<open>
  C7, as amended. For every configuration, environment and state \<open>authenticate_outlook\<close>
  returns a boolean and leaves the files as they were. It returns \<open>False\<close> exactly when a
  call of the sequence raised, other than a timeout of the wait for, or the click on, the
  "stay signed in" button: that call is then its last call, and the exception is logged
  after it. It returns \<open>True\<close> exactly when no such call raised, and then its last events
  are the wait for the mailbox, which completed, and the success message.
\<close>

theorem authenticate_outlook_false_iff_call_raised:
  "let r = authenticate_outlook env config st;
       new = drop (length (trace st)) (trace (snd r))
   in files (snd r) = files st
      \<and> trace (snd r) = trace st @ new
      \<and> fst r = (failures env (trace st) new = [])
      \<and> (if fst r then
           \<exists>t. trace (snd r) = t @ await_mailbox
                \<and> env (t @ [Log ''Waiting for the final page to load''])
                      (WaitForSelector sel_new_mail (Some 60000)) = None
         else
           \<exists>c e t. failures env (trace st) new = [(c, e)]
                \<and> trace (snd r) = t @ [Call c, LogExn ''Error during authentication: '' e]
                \<and> env t c = Some e)"
proof -
  obtain x s where t: "authenticate_outlook_try env config st = (x, s)"
    by (cases "authenticate_outlook_try env config st")
  have f: "files s = files st"
    using authenticate_outlook_try_files [of env config st] t by simp
  from accounted_try [of env st config] t obtain new where
    n: "trace s = trace st @ new"
    and c: "(case x of
             Inr u \<Rightarrow> failures env (trace st) new = []
           | Inl e \<Rightarrow> (\<exists>pre c. new = pre @ [Call c] \<and> failures env (trace st) new = [(c, e)]
                          \<and> env (trace st @ pre) c = Some e))"
    unfolding accounted_def by auto
  show ?thesis
  proof (cases x)
    case (Inr u)
    have r: "authenticate_outlook env config st = (True, s)"
      using t Inr by (simp add: authenticate_outlook_def)
    have d: "drop (length (trace st)) (trace s) = new" using n by simp
    from c Inr have z: "failures env (trace st) new = []" by simp
    from authenticate_outlook_try_Inr [of env config st u s] t Inr
    have w: "\<exists>t. trace s = t @ await_mailbox
                \<and> env (t @ [Log ''Waiting for the final page to load''])
                      (WaitForSelector sel_new_mail (Some 60000)) = None"
      by simp
    show ?thesis unfolding Let_def r using f n d z w by simp
  next
    case (Inl e)
    let ?s = "log (LogExn ''Error during authentication: '' e) s"
    let ?new = "new @ [LogExn ''Error during authentication: '' e]"
    have r: "authenticate_outlook env config st = (False, ?s)"
      using t Inl by (simp add: authenticate_outlook_def)
    have tr: "trace ?s = trace st @ ?new" using n by (simp add: log_def)
    have d: "drop (length (trace st)) (trace ?s) = ?new" using tr by simp
    from c Inl obtain pre c' where pc: "new = pre @ [Call c']"
      "failures env (trace st) new = [(c', e)]" "env (trace st @ pre) c' = Some e"
      by auto
    have z: "failures env (trace st) ?new = [(c', e)]"
      using pc(2) by (simp add: failures_append) (simp add: failures_def)
    have "failures env (trace st) ?new = [(c', e)]
          \<and> trace ?s = (trace st @ pre) @ [Call c', LogExn ''Error during authentication: '' e]
          \<and> env (trace st @ pre) c' = Some e"
      using z tr pc by simp
    then have w: "\<exists>c e' t. failures env (trace st) ?new = [(c, e')]
          \<and> trace ?s = t @ [Call c, LogExn ''Error during authentication: '' e']
          \<and> env t c = Some e'"
      by blast
    have fs: "files ?s = files st" using f by (simp add: log_def)
    show ?thesis unfolding Let_def r using fs tr d z w by simp
  qed
qed

text \<open>
  C7 as stated fails: here the wait for the "stay signed in" button raises a timeout in
  the middle of the sequence, and \<open>authenticate_outlook\<close> returns \<open>True\<close>.
\<close>

theorem prompt_timeout_is_not_failure_counterexample:
  "raised prompt_times_out []
     (trace (snd (authenticate_outlook prompt_times_out example_config
                    \<lparr>trace = [], files = Map.empty\<rparr>)))
     = [(WaitForSelector sel_stay_signed_in (Some 60000), PlaywrightTimeoutError)]
   \<and> fst (authenticate_outlook prompt_times_out example_config \<lparr>trace = [], files = Map.empty\<rparr>)"
proof -
  have a: "authenticate_outlook prompt_times_out example_config \<lparr>trace = [], files = Map.empty\<rparr>
        = (True, \<lparr>trace = enter_email example_config @ enter_password example_config
                     @ [Call (WaitForSelector sel_stay_signed_in (Some 60000))] @ no_prompt
                     @ await_mailbox,
                  files = Map.empty\<rparr>)"
    by (simp add: authenticate_outlook_def authenticate_outlook_try_def example_config_def
        enter_email_def enter_password_def stay_signed_in_def no_prompt_def await_mailbox_def
        and_then_def except_timeout_def perform_def log_def prompt_times_out_def
        sel_stay_signed_in_def sel_password_def sel_new_mail_def)
  have b: "raised prompt_times_out []
        (enter_email example_config @ enter_password example_config
          @ [Call (WaitForSelector sel_stay_signed_in (Some 60000))] @ no_prompt @ await_mailbox)
     = [(WaitForSelector sel_stay_signed_in (Some 60000), PlaywrightTimeoutError)]"
    by (simp add: enter_email_def enter_password_def no_prompt_def await_mailbox_def
        prompt_times_out_def sel_stay_signed_in_def sel_password_def sel_new_mail_def)
  show ?thesis unfolding a using b by simp
qed

text \<open>
  C8. In the password flow (empty username), when the email and password forms complete
  and the wait for the "stay signed in" prompt times out, \<open>authenticate_outlook\<close> logs that
  no prompt was detected and goes on to the wait for the mailbox; it returns \<open>True\<close>
  exactly when that wait completes.
\<close>

theorem stay_signed_in_timeout_continues:
  assumes "username config = []"
    and "run env (enter_email config @ enter_password config) st = (Inr (), st2)"
    and "env (trace st2) (WaitForSelector sel_stay_signed_in (Some 60000))
         = Some PlaywrightTimeoutError"
  shows "authenticate_outlook_try env config st
           = run env (no_prompt @ await_mailbox)
               (log (Call (WaitForSelector sel_stay_signed_in (Some 60000))) st2)
         \<and> (\<exists>rest. trace (snd (authenticate_outlook env config st))
                     = trace st2
                       @ [Call (WaitForSelector sel_stay_signed_in (Some 60000))]
                       @ no_prompt
                       @ [Log ''Waiting for the final page to load'',
                          Call (WaitForSelector sel_new_mail (Some 60000))]
                       @ rest)
         \<and> fst (authenticate_outlook env config st)
             = (env (trace st2
                     @ [Call (WaitForSelector sel_stay_signed_in (Some 60000))]
                     @ no_prompt
                     @ [Log ''Waiting for the final page to load''])
                  (WaitForSelector sel_new_mail (Some 60000)) = None)"
proof -
  let ?st3 = "log (Call (WaitForSelector sel_stay_signed_in (Some 60000))) st2"
  obtain st1 where e1: "run env (enter_email config) st = (Inr (), st1)"
    and e2: "run env (enter_password config) st1 = (Inr (), st2)"
    using assms(2)
    by (cases "run env (enter_email config) st")
       (auto simp: run_append and_then_def split: sum.splits)
  have t: "authenticate_outlook_try env config st = run env (no_prompt @ await_mailbox) ?st3"
    unfolding authenticate_outlook_try_def
    using e1 e2 assms(1) run_stay_signed_in_timeout [of env st2, OF assms(3)]
    by (simp add: and_then_def except_timeout_def run_append)
  have r: "run env (no_prompt @ await_mailbox) ?st3
           = (case env (trace st2
                     @ [Call (WaitForSelector sel_stay_signed_in (Some 60000))]
                     @ no_prompt
                     @ [Log ''Waiting for the final page to load''])
                  (WaitForSelector sel_new_mail (Some 60000)) of
                None \<Rightarrow> (Inr (), st2\<lparr>trace := trace st2
                       @ [Call (WaitForSelector sel_stay_signed_in (Some 60000))]
                       @ no_prompt @ await_mailbox\<rparr>)
              | Some x \<Rightarrow> (Inl x, st2\<lparr>trace := trace st2
                       @ [Call (WaitForSelector sel_stay_signed_in (Some 60000))]
                       @ no_prompt
                       @ [Log ''Waiting for the final page to load'',
                          Call (WaitForSelector sel_new_mail (Some 60000))]\<rparr>))"
    by (simp add: no_prompt_def await_mailbox_def perform_def log_def split: option.splits)
  show ?thesis
  proof (cases "env (trace st2
                     @ [Call (WaitForSelector sel_stay_signed_in (Some 60000))]
                     @ no_prompt
                     @ [Log ''Waiting for the final page to load''])
                  (WaitForSelector sel_new_mail (Some 60000))")
    case None
    with t r show ?thesis
      by (simp add: authenticate_outlook_def await_mailbox_def)
  next
    case (Some x)
    with t r show ?thesis
      by (simp add: authenticate_outlook_def log_def)
  qed
qed

theorem stay_signed_in_timeout_continues_witness:
  "username example_config = []
   \<and> run prompt_times_out (enter_email example_config @ enter_password example_config)
         \<lparr>trace = [], files = Map.empty\<rparr>
       = (Inr (), \<lparr>trace = enter_email example_config @ enter_password example_config,
                   files = Map.empty\<rparr>)
   \<and> prompt_times_out (enter_email example_config @ enter_password example_config)
         (WaitForSelector sel_stay_signed_in (Some 60000)) = Some PlaywrightTimeoutError
   \<and> fst (authenticate_outlook prompt_times_out example_config \<lparr>trace = [], files = Map.empty\<rparr>)"
proof -
  let ?st = "\<lparr>trace = [], files = Map.empty\<rparr>"
  let ?st2 = "\<lparr>trace = enter_email example_config @ enter_password example_config,
               files = Map.empty\<rparr>"
  have h1: "username example_config = []" by (simp add: example_config_def)
  have h2: "run prompt_times_out (enter_email example_config @ enter_password example_config) ?st
            = (Inr (), ?st2)"
    by (simp add: enter_email_def enter_password_def perform_def log_def prompt_times_out_def
        sel_stay_signed_in_def sel_password_def)
  have h3: "prompt_times_out (trace ?st2) (WaitForSelector sel_stay_signed_in (Some 60000))
            = Some PlaywrightTimeoutError"
    by (simp add: prompt_times_out_def)
  have ok: "prompt_times_out
              (trace ?st2 @ [Call (WaitForSelector sel_stay_signed_in (Some 60000))] @ no_prompt
               @ [Log ''Waiting for the final page to load''])
              (WaitForSelector sel_new_mail (Some 60000)) = None"
    by (simp add: prompt_times_out_def sel_new_mail_def sel_stay_signed_in_def)
  from stay_signed_in_timeout_continues [where config = example_config and env = prompt_times_out
      and st = ?st and ?st2.0 = ?st2, OF h1 h2 h3] ok
  have "fst (authenticate_outlook prompt_times_out example_config ?st)" by simp
  with h1 h2 h3 show ?thesis by simp
qed

text \<open>
  C9. When the trigger file does not exist, a pass only sleeps five seconds: no browser
  call, no log line, no change to the files; and \<open>n\<close> passes are \<open>n\<close> sleeps. After a pass
  in which the request was sent and the trigger file removed, the trigger file is gone
  and the next pass only sleeps.
\<close>

theorem absent_trigger_file_only_sleeps:
  "(files st triggerFile = None \<longrightarrow>
      poll_cycle env triggerFile st = st\<lparr>trace := trace st @ [Sleep 5]\<rparr>
      \<and> poll_loop n env triggerFile st = st\<lparr>trace := trace st @ replicate n (Sleep 5)\<rparr>)
   \<and> (files st triggerFile = Some raw \<and> parse_request (readlines raw) = Inr email_details
        \<and> fst (send_email env email_details
                  (log (Log (''Notification file found: '' @ triggerFile)) st))
        \<and> env (trace (snd (send_email env email_details
                              (log (Log (''Notification file found: '' @ triggerFile)) st))))
               (OsRemove triggerFile) = None \<longrightarrow>
      files (poll_cycle env triggerFile st) triggerFile = None
      \<and> poll_cycle env triggerFile (poll_cycle env triggerFile st) =
          (poll_cycle env triggerFile st)
            \<lparr>trace := trace (poll_cycle env triggerFile st) @ [Sleep 5]\<rparr>)"
proof (intro conjI impI)
  assume "files st triggerFile = None"
  then show "poll_cycle env triggerFile st = st\<lparr>trace := trace st @ [Sleep 5]\<rparr>"
    by (rule poll_cycle_absent)
next
  assume "files st triggerFile = None"
  then show "poll_loop n env triggerFile st = st\<lparr>trace := trace st @ replicate n (Sleep 5)\<rparr>"
    by (rule poll_loop_absent)
next
  assume a: "files st triggerFile = Some raw \<and> parse_request (readlines raw) = Inr email_details
        \<and> fst (send_email env email_details
                  (log (Log (''Notification file found: '' @ triggerFile)) st))
        \<and> env (trace (snd (send_email env email_details
                              (log (Log (''Notification file found: '' @ triggerFile)) st))))
               (OsRemove triggerFile) = None"
  obtain st2 where s: "send_email env email_details
      (log (Log (''Notification file found: '' @ triggerFile)) st) = (True, st2)"
    using a by (cases "send_email env email_details
      (log (Log (''Notification file found: '' @ triggerFile)) st)") simp
  from poll_cycle_parsed [of st triggerFile raw email_details env True st2] a s
  show gone: "files (poll_cycle env triggerFile st) triggerFile = None" by simp
  from poll_cycle_absent [OF gone]
  show "poll_cycle env triggerFile (poll_cycle env triggerFile st) =
          (poll_cycle env triggerFile st)
            \<lparr>trace := trace (poll_cycle env triggerFile st) @ [Sleep 5]\<rparr>" .
qed

theorem absent_trigger_file_only_sleeps_witness:
  "files \<lparr>trace = [], files = Map.empty\<rparr> ''/tmp/notification.txt'' = None
   \<and> poll_loop 3 always_ok ''/tmp/notification.txt'' \<lparr>trace = [], files = Map.empty\<rparr>
       = \<lparr>trace = [Sleep 5, Sleep 5, Sleep 5], files = Map.empty\<rparr>
   \<and> files example_state ''/tmp/notification.txt'' = Some example_trigger
   \<and> parse_request (readlines example_trigger)
       = Inr \<lparr>recipient = ''alice@example.com,bob@example.com'', subject = ''Project update'',
              body_file = ''/tmp/body.txt''\<rparr>
   \<and> fst (send_email always_ok
            \<lparr>recipient = ''alice@example.com,bob@example.com'', subject = ''Project update'',
             body_file = ''/tmp/body.txt''\<rparr>
            (log (Log ''Notification file found: /tmp/notification.txt'') example_state))
   \<and> always_ok
        (trace (snd (send_email always_ok
            \<lparr>recipient = ''alice@example.com,bob@example.com'', subject = ''Project update'',
             body_file = ''/tmp/body.txt''\<rparr>
            (log (Log ''Notification file found: /tmp/notification.txt'') example_state))))
        (OsRemove ''/tmp/notification.txt'') = None
   \<and> poll_cycle always_ok ''/tmp/notification.txt''
        (poll_cycle always_ok ''/tmp/notification.txt'' example_state)
       = (poll_cycle always_ok ''/tmp/notification.txt'' example_state)
           \<lparr>trace := trace (poll_cycle always_ok ''/tmp/notification.txt'' example_state) @ [Sleep 5]\<rparr>"
proof -
  let ?d = "\<lparr>recipient = ''alice@example.com,bob@example.com'', subject = ''Project update'',
             body_file = ''/tmp/body.txt''\<rparr>"
  have h0: "files \<lparr>trace = [], files = Map.empty\<rparr> ''/tmp/notification.txt'' = None"
    by simp
  have h1: "files example_state ''/tmp/notification.txt'' = Some example_trigger"
    by (simp add: example_state_def)
  have h2: "parse_request (readlines example_trigger) = Inr ?d"
    by (simp add: example_lines parse_request_def index_def example_strip)
  note h3 = example_send_succeeds
  have h4: "always_ok t (OsRemove ''/tmp/notification.txt'') = None" for t
    by (simp add: always_ok_def)
  have a: "poll_loop 3 always_ok ''/tmp/notification.txt'' \<lparr>trace = [], files = Map.empty\<rparr>
       = \<lparr>trace = [Sleep 5, Sleep 5, Sleep 5], files = Map.empty\<rparr>"
  proof -
    from h0 absent_trigger_file_only_sleeps
      [of "\<lparr>trace = [], files = Map.empty\<rparr>" "''/tmp/notification.txt''" always_ok 3]
    have e: "poll_loop 3 always_ok ''/tmp/notification.txt'' \<lparr>trace = [], files = Map.empty\<rparr>
       = \<lparr>trace = [], files = Map.empty\<rparr>
           \<lparr>trace := trace \<lparr>trace = [], files = Map.empty\<rparr> @ replicate 3 (Sleep 5)\<rparr>"
      by blast
    have r: "replicate 3 (Sleep 5) = [Sleep 5, Sleep 5, Sleep 5]"
      by (simp add: numeral_3_eq_3)
    show ?thesis unfolding e r by simp
  qed
  have b: "poll_cycle always_ok ''/tmp/notification.txt''
        (poll_cycle always_ok ''/tmp/notification.txt'' example_state)
       = (poll_cycle always_ok ''/tmp/notification.txt'' example_state)
           \<lparr>trace := trace (poll_cycle always_ok ''/tmp/notification.txt'' example_state) @ [Sleep 5]\<rparr>"
    using h1 h2 h3 h4 absent_trigger_file_only_sleeps
      [of example_state "''/tmp/notification.txt''" always_ok 0 example_trigger ?d]
    by simp
  from h0 a h1 h2 h3 h4 b show ?thesis by blast
qed

text \<open>
  C10. The claim asks that the driver, the browser and the context are released also when
  the set-up fails partway. Here the driver starts and the launch of the browser raises:
  \<open>setup_browser\<close> returns three \<open>None\<close>s, \<open>authenticate\<close> closes nothing, and the driver that
  was started is never stopped. (When the set-up completes, each of the three is released
  once, also after a failed authentication: \<open>authenticate_releases_each_once\<close>.)
\<close>

theorem authenticate_leaves_driver_running:
  "authenticate (\<lambda>t c. if c = LaunchChromium False then Some (Error ''launch failed'') else None)
     \<lparr>auth_email = ''name@example.com'', auth_password = ''password'', auth_username = ''''\<rparr>
     \<lparr>trace = [], files = Map.empty\<rparr>
   = (Inr (),
      \<lparr>trace = [Call StartPlaywright,
                Call (LaunchChromium False),
                LogExn ''Error setting up browser: '' (Error ''launch failed''),
                Log ''Browser context was not defined. Critical error''],
       files = Map.empty\<rparr>)"
  by (simp add: authenticate_def OutlookConfig_init_def setup_browser_def start_browser_def
      perform_def log_def)

end
